theory Spec2Isabelle
  imports Complex_Main
begin

section \<open>Python values\<close>

text \<open>
  The program (\<^verbatim>\<open>app.py\<close>) works on the objects that \<^verbatim>\<open>r.json()\<close> returns: \<^verbatim>\<open>None\<close>,
  booleans, integers, strings, lists and dictionaries with string keys. A dictionary is
  an association list in insertion order; a lookup takes the first entry of a key, and the
  dictionaries a JSON parser builds have each key once. JSON numbers with a fraction or an
  exponent (Python floats) are not represented.
\<close>

datatype pyval =
    PNone
  | PBool bool
  | PInt int
  | PStr string
  | PList "pyval list"
  | PDict "(string \<times> pyval) list"

text \<open>The exceptions a function of the program can let escape.\<close>

datatype error = AttributeError | TypeError | KeyError

definition bind_exn :: "error + 'a \<Rightarrow> ('a \<Rightarrow> error + 'b) \<Rightarrow> error + 'b" where
  "bind_exn m f = (case m of Inl e \<Rightarrow> Inl e | Inr x \<Rightarrow> f x)"

text \<open>Truth value testing (\<^verbatim>\<open>if not x\<close>).\<close>

fun py_truthy :: "pyval \<Rightarrow> bool" where
  "py_truthy PNone = False"
| "py_truthy (PBool b) = b"
| "py_truthy (PInt i) = (i \<noteq> 0)"
| "py_truthy (PStr s) = (s \<noteq> [])"
| "py_truthy (PList xs) = (xs \<noteq> [])"
| "py_truthy (PDict kvs) = (kvs \<noteq> [])"

text \<open>\<^verbatim>\<open>d.get(k, default)\<close>: only a dictionary has the method.\<close>

fun dict_get :: "pyval \<Rightarrow> string \<Rightarrow> pyval \<Rightarrow> error + pyval" where
  "dict_get (PDict kvs) k d = Inr (case map_of kvs k of None \<Rightarrow> d | Some v \<Rightarrow> v)"
| "dict_get _ k d = Inl AttributeError"

text \<open>\<^verbatim>\<open>d[k]\<close> with a string \<^verbatim>\<open>k\<close>: a missing key raises KeyError, a list or a string
  wants an integer index, and the other values are not subscriptable.\<close>

fun py_getitem :: "pyval \<Rightarrow> string \<Rightarrow> error + pyval" where
  "py_getitem (PDict kvs) k = (case map_of kvs k of None \<Rightarrow> Inl KeyError | Some v \<Rightarrow> Inr v)"
| "py_getitem _ k = Inl TypeError"

fun is_substring :: "string \<Rightarrow> string \<Rightarrow> bool" where
  "is_substring k [] = (k = [])"
| "is_substring k (c # s) = (take (length k) (c # s) = k \<or> is_substring k s)"

text \<open>\<^verbatim>\<open>k in x\<close> with a string \<^verbatim>\<open>k\<close>: a key of a dictionary, an element of a list, a
  substring of a string; \<^verbatim>\<open>None\<close>, booleans and integers are not iterable.\<close>

fun py_contains :: "string \<Rightarrow> pyval \<Rightarrow> error + bool" where
  "py_contains k (PDict kvs) = Inr (map_of kvs k \<noteq> None)"
| "py_contains k (PList xs) = Inr (PStr k \<in> set xs)"
| "py_contains k (PStr s) = Inr (is_substring k s)"
| "py_contains k _ = Inl TypeError"

text \<open>\<^verbatim>\<open>for x in v\<close>: the elements of a list, the keys of a dictionary, the characters
  of a string.\<close>

fun py_iter :: "pyval \<Rightarrow> error + pyval list" where
  "py_iter (PList xs) = Inr xs"
| "py_iter (PDict kvs) = Inr (map (\<lambda>kv. PStr (fst kv)) kvs)"
| "py_iter (PStr s) = Inr (map (\<lambda>c. PStr [c]) s)"
| "py_iter _ = Inl TypeError"

text \<open>\<^verbatim>\<open>xs[:n]\<close>: a negative \<^verbatim>\<open>n\<close> counts from the end.\<close>

definition py_slice_to :: "'a list \<Rightarrow> int \<Rightarrow> 'a list" where
  "py_slice_to xs n =
     (if 0 \<le> n then take (nat n) xs else take (length xs - nat (- n)) xs)"

subsection \<open>Comparison\<close>

text \<open>A boolean is an integer in Python (\<^verbatim>\<open>True == 1\<close>).\<close>

fun as_int :: "pyval \<Rightarrow> int option" where
  "as_int (PInt i) = Some i"
| "as_int (PBool b) = Some (if b then 1 else 0)"
| "as_int _ = None"

text \<open>\<^verbatim>\<open>a == b\<close> never raises. Two dictionaries are equal when they have the same keys
  with equal values, in any order.\<close>

fun py_eq :: "pyval \<Rightarrow> pyval \<Rightarrow> bool"
  and py_eq_list :: "pyval list \<Rightarrow> pyval list \<Rightarrow> bool"
  and py_eq_items :: "(string \<times> pyval) list \<Rightarrow> (string \<times> pyval) list \<Rightarrow> bool" where
  "py_eq PNone PNone = True"
| "py_eq (PStr s) (PStr t) = (s = t)"
| "py_eq (PList xs) (PList ys) = py_eq_list xs ys"
| "py_eq (PDict a) (PDict b) = (length a = length b \<and> py_eq_items a b)"
| "py_eq a b = (case (as_int a, as_int b) of (Some x, Some y) \<Rightarrow> x = y | _ \<Rightarrow> False)"
| "py_eq_list [] [] = True"
| "py_eq_list (x # xs) (y # ys) = (py_eq x y \<and> py_eq_list xs ys)"
| "py_eq_list _ _ = False"
| "py_eq_items [] b = True"
| "py_eq_items (kv # a) b =
     ((case map_of b (fst kv) of None \<Rightarrow> False | Some w \<Rightarrow> py_eq (snd kv) w) \<and> py_eq_items a b)"

text \<open>\<^verbatim>\<open>s > t\<close> on strings: lexicographic, by character code.\<close>

fun str_gt :: "string \<Rightarrow> string \<Rightarrow> bool" where
  "str_gt [] t = False"
| "str_gt (c # s) [] = True"
| "str_gt (c # s) (d # t) = (if c = d then str_gt s t else (of_char d :: nat) < of_char c)"

text \<open>\<^verbatim>\<open>a > b\<close>: defined between two numbers, two strings and two lists (at the first
  pair of unequal elements); every other pair raises TypeError.\<close>

fun py_gt :: "pyval \<Rightarrow> pyval \<Rightarrow> error + bool"
  and py_gt_list :: "pyval list \<Rightarrow> pyval list \<Rightarrow> error + bool" where
  "py_gt (PStr s) (PStr t) = Inr (str_gt s t)"
| "py_gt (PList xs) (PList ys) = py_gt_list xs ys"
| "py_gt a b = (case (as_int a, as_int b) of (Some x, Some y) \<Rightarrow> Inr (y < x) | _ \<Rightarrow> Inl TypeError)"
| "py_gt_list [] ys = Inr False"
| "py_gt_list (x # xs) [] = Inr True"
| "py_gt_list (x # xs) (y # ys) = (if py_eq x y then py_gt_list xs ys else py_gt x y)"

subsection \<open>Conversion to a string\<close>

definition digit_char :: "nat \<Rightarrow> char" where
  "digit_char n = ''0123456789'' ! n"

fun digits :: "nat \<Rightarrow> string" where
  "digits n = (if n < 10 then [digit_char n] else digits (n div 10) @ [digit_char (n mod 10)])"

declare digits.simps [simp del]

definition str_int :: "int \<Rightarrow> string" where
  "str_int i = (if i < 0 then CHR ''-'' # digits (nat (- i)) else digits (nat i))"

text \<open>\<^verbatim>\<open>str(v)\<close>. The text of a list or a dictionary is its \<^verbatim>\<open>repr\<close>, which quotes and
  escapes the strings inside; it is a parameter \<open>repr\<close> of the model.\<close>

fun py_str :: "(pyval \<Rightarrow> string) \<Rightarrow> pyval \<Rightarrow> string" where
  "py_str repr PNone = ''None''"
| "py_str repr (PBool b) = (if b then ''True'' else ''False'')"
| "py_str repr (PInt i) = str_int i"
| "py_str repr (PStr s) = s"
| "py_str repr v = repr v"

section \<open>Transformation of the match data\<close>

text \<open>\<^verbatim>\<open>date_str.replace('Z', '+00:00')\<close>\<close>

definition replace_Z :: "string \<Rightarrow> string" where
  "replace_Z s = concat (map (\<lambda>c. if c = CHR ''Z'' then ''+00:00'' else [c]) s)"

text \<open>
  \<^verbatim>\<open>parse_date\<close>. \<^verbatim>\<open>datetime.fromisoformat\<close> is the parameter \<open>fromisoformat\<close>, with
  \<open>None\<close> where it raises. A value that is not a string has no \<^verbatim>\<open>replace\<close>; that error
  is caught like the parser's.
\<close>

definition parse_date :: "(string \<Rightarrow> 'dt option) \<Rightarrow> pyval \<Rightarrow> 'dt option" where
  "parse_date fromisoformat date_str =
     (if \<not> py_truthy date_str then None
      else case date_str of PStr s \<Rightarrow> fromisoformat (replace_Z s) | _ \<Rightarrow> None)"

text \<open>The local variables of the loop body of \<^verbatim>\<open>build_match_list_from_matches\<close>, each as
  the expression that the source assigns to it. The only exception they raise is
  AttributeError, from \<^verbatim>\<open>get\<close> on a value that is not a dictionary.\<close>

definition home_team :: "pyval \<Rightarrow> error + pyval" where
  "home_team m = dict_get m ''homeTeam'' (PDict [])"

definition away_team :: "pyval \<Rightarrow> error + pyval" where
  "away_team m = dict_get m ''awayTeam'' (PDict [])"

definition score :: "pyval \<Rightarrow> error + pyval" where
  "score m = bind_exn (dict_get m ''score'' (PDict [])) (\<lambda>s. dict_get s ''fullTime'' (PDict []))"

definition home_id :: "pyval \<Rightarrow> error + pyval" where
  "home_id m = bind_exn (home_team m) (\<lambda>t. dict_get t ''id'' PNone)"

definition away_id :: "pyval \<Rightarrow> error + pyval" where
  "away_id m = bind_exn (away_team m) (\<lambda>t. dict_get t ''id'' PNone)"

definition home_name :: "pyval \<Rightarrow> error + pyval" where
  "home_name m = bind_exn (home_team m) (\<lambda>t. dict_get t ''name'' (PStr []))"

definition away_name :: "pyval \<Rightarrow> error + pyval" where
  "away_name m = bind_exn (away_team m) (\<lambda>t. dict_get t ''name'' (PStr []))"

definition home_score :: "pyval \<Rightarrow> error + pyval" where
  "home_score m = bind_exn (score m) (\<lambda>s. dict_get s ''home'' PNone)"

definition away_score :: "pyval \<Rightarrow> error + pyval" where
  "away_score m = bind_exn (score m) (\<lambda>s. dict_get s ''away'' PNone)"

definition competition_name :: "pyval \<Rightarrow> error + pyval" where
  "competition_name m =
     bind_exn (dict_get m ''competition'' (PDict [])) (\<lambda>c. dict_get c ''name'' (PStr []))"

text \<open>The result letter: \<^verbatim>\<open>'W'\<close>, \<^verbatim>\<open>'D'\<close>, \<^verbatim>\<open>'L'\<close>, or \<^verbatim>\<open>None\<close> without a comparison
  when a goal count is \<^verbatim>\<open>None\<close>.\<close>

definition match_result :: "pyval \<Rightarrow> pyval \<Rightarrow> error + string option" where
  "match_result gf ga =
     (if gf \<noteq> PNone \<and> ga \<noteq> PNone then
        bind_exn (py_gt gf ga) (\<lambda>more.
          if more then Inr (Some ''W'')
          else if py_eq gf ga then Inr (Some ''D'')
          else Inr (Some ''L''))
      else Inr None)"

text \<open>The dictionary appended for one match.\<close>

record 'dt match_entry =
  date :: "'dt option"
  opponent :: pyval
  goals_for :: pyval
  goals_against :: pyval
  result :: "string option"
  is_home :: bool
  status :: string
  competition :: pyval
  raw :: pyval

definition build_match_entry ::
  "(pyval \<Rightarrow> string) \<Rightarrow> (string \<Rightarrow> 'dt option) \<Rightarrow> pyval \<Rightarrow> pyval \<Rightarrow> error + 'dt match_entry" where
  "build_match_entry repr fromisoformat team_id m =
     bind_exn (dict_get m ''utcDate'' PNone) (\<lambda>utc.
     bind_exn (home_id m) (\<lambda>hid.
     bind_exn (away_id m) (\<lambda>aid.
     bind_exn (home_name m) (\<lambda>hname.
     bind_exn (away_name m) (\<lambda>aname.
     bind_exn (home_score m) (\<lambda>hscore.
     bind_exn (away_score m) (\<lambda>ascore.
       let home = (py_str repr team_id = py_str repr hid);
           gf = (if home then hscore else ascore);
           ga = (if home then ascore else hscore)
       in
     bind_exn (match_result gf ga) (\<lambda>res.
     bind_exn (competition_name m) (\<lambda>comp.
       Inr \<lparr> date = parse_date fromisoformat utc,
             opponent = (if home then aname else hname),
             goals_for = gf,
             goals_against = ga,
             result = res,
             is_home = home,
             status = ''Finalizado'',
             competition = comp,
             raw = m \<rparr>)))))))))"

text \<open>\<^verbatim>\<open>build_match_list_from_matches(matches, team_id)\<close>: the loop appends one entry per
  match, in order, and an exception in a match ends the call.\<close>

fun build_match_list_from_matches ::
  "(pyval \<Rightarrow> string) \<Rightarrow> (string \<Rightarrow> 'dt option) \<Rightarrow> pyval list \<Rightarrow> pyval \<Rightarrow> error + 'dt match_entry list" where
  "build_match_list_from_matches repr fromisoformat [] team_id = Inr []"
| "build_match_list_from_matches repr fromisoformat (m # matches) team_id =
     bind_exn (build_match_entry repr fromisoformat team_id m) (\<lambda>e.
     bind_exn (build_match_list_from_matches repr fromisoformat matches team_id) (\<lambda>es.
       Inr (e # es)))"

section \<open>The rate-limited request\<close>

text \<open>
  What the fetch functions change outside their caches: the clock (\<^verbatim>\<open>time.time()\<close>, in
  seconds, moved on by \<^verbatim>\<open>time.sleep\<close>), the global \<^verbatim>\<open>LAST_REQUEST_TIME\<close>, the URLs that
  \<^verbatim>\<open>requests.get\<close> was called with (the latest first) and the messages passed to
  \<^verbatim>\<open>flash\<close>, each with its category (the latest first).
\<close>

text \<open>
  The three messages of the source are constructors: \<open>Limite_excedido\<close> for the warning
  that the request limit is exceeded, \<open>API_Key_invalida\<close> for the invalid or missing API
  key, and \<open>Error_de_conexion\<close> for the connection error, which ends with the text of the
  exception it reports.
\<close>

datatype request_exception = ConnectionProblem string | HTTPError nat | JSONDecodeError string

datatype message = Limite_excedido | API_Key_invalida | Error_de_conexion request_exception

record env =
  clock :: real
  LAST_REQUEST_TIME :: real
  requests :: "string list"
  flashes :: "(message \<times> string) list"

definition REQUEST_DELAY :: real where
  "REQUEST_DELAY = 6"

definition rate_limited_request :: "env \<Rightarrow> env" where
  "rate_limited_request e =
     (let elapsed = clock e - LAST_REQUEST_TIME e;
          e1 = (if elapsed < REQUEST_DELAY then e\<lparr>clock := clock e + (REQUEST_DELAY - elapsed)\<rparr> else e)
      in e1\<lparr>LAST_REQUEST_TIME := clock e1\<rparr>)"

text \<open>
  The outcome of \<^verbatim>\<open>requests.get\<close>: it raises a \<^verbatim>\<open>RequestException\<close> (timeout, connection
  error) with a text, or returns a response with a status code and a body, which
  \<^verbatim>\<open>r.json()\<close> parses (\<open>Inr\<close>) or rejects with a \<^verbatim>\<open>JSONDecodeError\<close>, a
  \<^verbatim>\<open>RequestException\<close> as well (\<open>Inl\<close>, with its text). The upstream API is a parameter:
  its answer to the request number \<open>n\<close> (from zero) for a URL.
\<close>

datatype http_result = RequestFailed string | Response nat "string + pyval"

type_synonym upstream = "nat \<Rightarrow> string \<Rightarrow> http_result"

definition flash :: "message \<Rightarrow> string \<Rightarrow> env \<Rightarrow> env" where
  "flash msg category e = e\<lparr>flashes := (msg, category) # flashes e\<rparr>"

definition api_url :: "string \<Rightarrow> string" where
  "api_url endpoint = ''https://api.football-data.org/v4/'' @ endpoint"

text \<open>\<^verbatim>\<open>football_data_get(endpoint)\<close> returns the parsed body, or \<^verbatim>\<open>None\<close>.
  \<^verbatim>\<open>raise_for_status\<close> raises for the codes 400 to 599.\<close>

definition football_data_get :: "upstream \<Rightarrow> string \<Rightarrow> env \<Rightarrow> pyval \<times> env" where
  "football_data_get up endpoint e =
     (let url = api_url endpoint;
          e1 = rate_limited_request e;
          e2 = e1\<lparr>requests := url # requests e1\<rparr>
      in case up (length (requests e1)) url of
           RequestFailed txt \<Rightarrow> (PNone, flash (Error_de_conexion (ConnectionProblem txt)) ''danger'' e2)
         | Response code body \<Rightarrow>
             if code = 429 then (PNone, flash Limite_excedido ''warning'' e2)
             else if code = 403 then (PNone, flash API_Key_invalida ''danger'' e2)
             else if code = 404 then (PNone, e2)
             else if 400 \<le> code \<and> code < 600
               then (PNone, flash (Error_de_conexion (HTTPError code)) ''danger'' e2)
             else (case body of
                     Inl txt \<Rightarrow> (PNone, flash (Error_de_conexion (JSONDecodeError txt)) ''danger'' e2)
                   | Inr data \<Rightarrow> (data, e2)))"

section \<open>The cached fetch functions\<close>

text \<open>
  \<^verbatim>\<open>functools.lru_cache(maxsize)\<close> around a function. The cache lists its entries from
  the least to the most recently used. A hit moves the entry to the recent end and
  returns its value without calling the function. A miss calls the function; a value it
  returns is stored at the recent end, in place of the entry at the other end when the
  cache is full, and an exception it raises leaves the cache as it was.
\<close>

definition lru_cache ::
  "nat \<Rightarrow> ('k \<Rightarrow> env \<Rightarrow> (error + 'v) \<times> env) \<Rightarrow> 'k \<Rightarrow> ('k \<times> 'v) list \<Rightarrow> env
    \<Rightarrow> (error + 'v) \<times> ('k \<times> 'v) list \<times> env" where
  "lru_cache maxsize user_function key cache e =
     (case map_of cache key of
        Some v \<Rightarrow> (Inr v, filter (\<lambda>kv. fst kv \<noteq> key) cache @ [(key, v)], e)
      | None \<Rightarrow>
          (case user_function key e of
             (Inl err, e') \<Rightarrow> (Inl err, cache, e')
           | (Inr v, e') \<Rightarrow>
               (Inr v, (if maxsize \<le> length cache then tl cache else cache) @ [(key, v)], e')))"

text \<open>
  The key of a cache entry is the tuple of the arguments of the call. The calls are
  positional, as everywhere in the program, so an argument is passed or left to its
  default.
\<close>

datatype 'a arg = Omitted | Passed 'a

fun arg_value :: "'a \<Rightarrow> 'a arg \<Rightarrow> 'a" where
  "arg_value d Omitted = d"
| "arg_value d (Passed x) = x"

text \<open>\<^verbatim>\<open>if not season: season = "2023"\<close>, for a season that is \<^verbatim>\<open>None\<close> or a string.\<close>

definition season_or_2023 :: "string option \<Rightarrow> string" where
  "season_or_2023 season = (case season of None \<Rightarrow> ''2023'' | Some s \<Rightarrow> if s = [] then ''2023'' else s)"

definition teams_endpoint :: "string \<Rightarrow> string option arg \<Rightarrow> string" where
  "teams_endpoint league_code season =
     ''competitions/'' @ league_code @ ''/teams?season='' @ season_or_2023 (arg_value None season)"

definition team_endpoint :: "string \<Rightarrow> string" where
  "team_endpoint team_id = ''teams/'' @ team_id"

definition matches_endpoint :: "string \<Rightarrow> string option arg \<Rightarrow> int arg \<Rightarrow> string" where
  "matches_endpoint team_id season limit =
     ''teams/'' @ team_id @ ''/matches?season='' @ season_or_2023 (arg_value None season)
       @ ''&limit='' @ str_int (arg_value 15 limit * 2)"

definition standings_endpoint :: "string \<Rightarrow> string option arg \<Rightarrow> string" where
  "standings_endpoint league_code season =
     ''competitions/'' @ league_code @ ''/standings?season='' @ season_or_2023 (arg_value None season)"

text \<open>\<^verbatim>\<open>if not data or key not in data: return []\<close>, then the rest of the function.\<close>

definition with_key :: "string \<Rightarrow> pyval \<Rightarrow> (pyval \<Rightarrow> error + pyval) \<Rightarrow> error + pyval" where
  "with_key k data rest =
     (if \<not> py_truthy data then Inr (PList [])
      else bind_exn (py_contains k data) (\<lambda>found.
        if \<not> found then Inr (PList []) else rest data))"

definition teams_of :: "pyval \<Rightarrow> error + pyval" where
  "teams_of data = with_key ''teams'' data (\<lambda>d. py_getitem d ''teams'')"

text \<open>\<^verbatim>\<open>[match for match in ... if match.get('status') == 'FINISHED']\<close>\<close>

fun finished_matches :: "pyval list \<Rightarrow> error + pyval list" where
  "finished_matches [] = Inr []"
| "finished_matches (m # ms) =
     bind_exn (dict_get m ''status'' PNone) (\<lambda>st.
     bind_exn (finished_matches ms) (\<lambda>rest.
       Inr (if py_eq st (PStr ''FINISHED'') then m # rest else rest)))"

definition last_matches_of :: "int \<Rightarrow> pyval \<Rightarrow> error + pyval" where
  "last_matches_of limit data =
     with_key ''matches'' data (\<lambda>d.
       bind_exn (py_getitem d ''matches'') (\<lambda>ms.
       bind_exn (py_iter ms) (\<lambda>items.
       bind_exn (finished_matches items) (\<lambda>finished.
         Inr (PList (py_slice_to finished limit))))))"

text \<open>The loop of \<^verbatim>\<open>get_league_standings\<close>.\<close>

fun total_table :: "pyval list \<Rightarrow> error + pyval" where
  "total_table [] = Inr (PList [])"
| "total_table (standing # rest) =
     bind_exn (py_getitem standing ''type'') (\<lambda>ty.
       if py_eq ty (PStr ''TOTAL'') then py_getitem standing ''table'' else total_table rest)"

definition standings_of :: "pyval \<Rightarrow> error + pyval" where
  "standings_of data =
     with_key ''standings'' data (\<lambda>d.
       bind_exn (py_getitem d ''standings'') (\<lambda>st.
       bind_exn (py_iter st) total_table))"

text \<open>The four functions as written, before the decorator.\<close>

definition get_teams_in_league_body ::
  "upstream \<Rightarrow> string \<times> string option arg \<Rightarrow> env \<Rightarrow> (error + pyval) \<times> env" where
  "get_teams_in_league_body up args e =
     (case args of (league_code, season) \<Rightarrow>
        (case football_data_get up (teams_endpoint league_code season) e of
           (data, e') \<Rightarrow> (teams_of data, e')))"

definition get_team_by_id_body :: "upstream \<Rightarrow> string \<Rightarrow> env \<Rightarrow> (error + pyval) \<times> env" where
  "get_team_by_id_body up team_id e =
     (case football_data_get up (team_endpoint team_id) e of
        (data, e') \<Rightarrow> (Inr (if py_truthy data then data else PDict []), e'))"

definition get_last_matches_for_team_body ::
  "upstream \<Rightarrow> string \<times> string option arg \<times> int arg \<Rightarrow> env \<Rightarrow> (error + pyval) \<times> env" where
  "get_last_matches_for_team_body up args e =
     (case args of (team_id, season, limit) \<Rightarrow>
        (case football_data_get up (matches_endpoint team_id season limit) e of
           (data, e') \<Rightarrow> (last_matches_of (arg_value 15 limit) data, e')))"

definition get_league_standings_body ::
  "upstream \<Rightarrow> string \<times> string option arg \<Rightarrow> env \<Rightarrow> (error + pyval) \<times> env" where
  "get_league_standings_body up args e =
     (case args of (league_code, season) \<Rightarrow>
        (case football_data_get up (standings_endpoint league_code season) e of
           (data, e') \<Rightarrow> (standings_of data, e')))"

text \<open>The state of the process: the four caches and the rest.\<close>

record world =
  io :: env
  teams_cache :: "((string \<times> string option arg) \<times> pyval) list"
  team_cache :: "(string \<times> pyval) list"
  matches_cache :: "((string \<times> string option arg \<times> int arg) \<times> pyval) list"
  standings_cache :: "((string \<times> string option arg) \<times> pyval) list"

definition initial_world :: "real \<Rightarrow> world" where
  "initial_world t =
     \<lparr> io = \<lparr> clock = t, LAST_REQUEST_TIME = 0, requests = [], flashes = [] \<rparr>,
       teams_cache = [], team_cache = [], matches_cache = [], standings_cache = [] \<rparr>"

definition get_teams_in_league ::
  "upstream \<Rightarrow> string \<times> string option arg \<Rightarrow> world \<Rightarrow> (error + pyval) \<times> world" where
  "get_teams_in_league up args w =
     (case lru_cache 128 (get_teams_in_league_body up) args (teams_cache w) (io w) of
        (r, c, e) \<Rightarrow> (r, w\<lparr>teams_cache := c, io := e\<rparr>))"

definition get_team_by_id :: "upstream \<Rightarrow> string \<Rightarrow> world \<Rightarrow> (error + pyval) \<times> world" where
  "get_team_by_id up args w =
     (case lru_cache 256 (get_team_by_id_body up) args (team_cache w) (io w) of
        (r, c, e) \<Rightarrow> (r, w\<lparr>team_cache := c, io := e\<rparr>))"

definition get_last_matches_for_team ::
  "upstream \<Rightarrow> string \<times> string option arg \<times> int arg \<Rightarrow> world \<Rightarrow> (error + pyval) \<times> world" where
  "get_last_matches_for_team up args w =
     (case lru_cache 256 (get_last_matches_for_team_body up) args (matches_cache w) (io w) of
        (r, c, e) \<Rightarrow> (r, w\<lparr>matches_cache := c, io := e\<rparr>))"

definition get_league_standings ::
  "upstream \<Rightarrow> string \<times> string option arg \<Rightarrow> world \<Rightarrow> (error + pyval) \<times> world" where
  "get_league_standings up args w =
     (case lru_cache 128 (get_league_standings_body up) args (standings_cache w) (io w) of
        (r, c, e) \<Rightarrow> (r, w\<lparr>standings_cache := c, io := e\<rparr>))"

text \<open>A call of one of the four fetch operations, with its arguments.\<close>

datatype call =
    Teams "string \<times> string option arg"
  | Team string
  | Matches "string \<times> string option arg \<times> int arg"
  | Standings "string \<times> string option arg"

fun fetch :: "upstream \<Rightarrow> call \<Rightarrow> world \<Rightarrow> (error + pyval) \<times> world" where
  "fetch up (Teams args) w = get_teams_in_league up args w"
| "fetch up (Team args) w = get_team_by_id up args w"
| "fetch up (Matches args) w = get_last_matches_for_team up args w"
| "fetch up (Standings args) w = get_league_standings up args w"

text \<open>What each operation makes of the data that \<^verbatim>\<open>football_data_get\<close> returned.\<close>

fun from_data :: "call \<Rightarrow> pyval \<Rightarrow> error + pyval" where
  "from_data (Teams args) data = teams_of data"
| "from_data (Team args) data = Inr (if py_truthy data then data else PDict [])"
| "from_data (Matches args) data =
     (case args of (team_id, season, limit) \<Rightarrow> last_matches_of (arg_value 15 limit) data)"
| "from_data (Standings args) data = standings_of data"

text \<open>One call after the other, each in the state the one before left.\<close>

fun run :: "upstream \<Rightarrow> call list \<Rightarrow> world \<Rightarrow> (error + pyval) list \<times> world" where
  "run up [] w = ([], w)"
| "run up (c # cs) w =
     (case fetch up c w of (r, w') \<Rightarrow> (case run up cs w' of (rs, w'') \<Rightarrow> (r # rs, w'')))"

text \<open>Whether a call would be answered from the cache, the size of that cache, the
  endpoint the call asks for otherwise, and the empty result of its operation.\<close>

fun cached_value :: "call \<Rightarrow> world \<Rightarrow> pyval option" where
  "cached_value (Teams args) w = map_of (teams_cache w) args"
| "cached_value (Team args) w = map_of (team_cache w) args"
| "cached_value (Matches args) w = map_of (matches_cache w) args"
| "cached_value (Standings args) w = map_of (standings_cache w) args"

definition cached :: "call \<Rightarrow> world \<Rightarrow> bool" where
  "cached c w = (cached_value c w \<noteq> None)"

text \<open>The calls that an operation's cache holds, from the least to the most recently
  used.\<close>

fun cache_keys :: "call \<Rightarrow> world \<Rightarrow> call list" where
  "cache_keys (Teams args) w = map (\<lambda>kv. Teams (fst kv)) (teams_cache w)"
| "cache_keys (Team args) w = map (\<lambda>kv. Team (fst kv)) (team_cache w)"
| "cache_keys (Matches args) w = map (\<lambda>kv. Matches (fst kv)) (matches_cache w)"
| "cache_keys (Standings args) w = map (\<lambda>kv. Standings (fst kv)) (standings_cache w)"

fun cache_size :: "call \<Rightarrow> world \<Rightarrow> nat" where
  "cache_size (Teams args) w = length (teams_cache w)"
| "cache_size (Team args) w = length (team_cache w)"
| "cache_size (Matches args) w = length (matches_cache w)"
| "cache_size (Standings args) w = length (standings_cache w)"

fun maxsize :: "call \<Rightarrow> nat" where
  "maxsize (Teams args) = 128"
| "maxsize (Team args) = 256"
| "maxsize (Matches args) = 256"
| "maxsize (Standings args) = 128"

fun endpoint :: "call \<Rightarrow> string" where
  "endpoint (Teams args) = (case args of (league_code, season) \<Rightarrow> teams_endpoint league_code season)"
| "endpoint (Team args) = team_endpoint args"
| "endpoint (Matches args) =
     (case args of (team_id, season, limit) \<Rightarrow> matches_endpoint team_id season limit)"
| "endpoint (Standings args) =
     (case args of (league_code, season) \<Rightarrow> standings_endpoint league_code season)"

fun empty_result :: "call \<Rightarrow> pyval" where
  "empty_result (Team args) = PDict []"
| "empty_result c = PList []"

fun same_operation :: "call \<Rightarrow> call \<Rightarrow> bool" where
  "same_operation (Teams a) (Teams b) = True"
| "same_operation (Team a) (Team b) = True"
| "same_operation (Matches a) (Matches b) = True"
| "same_operation (Standings a) (Standings b) = True"
| "same_operation c d = False"

section \<open>Shapes of upstream data\<close>

text \<open>
  The shape of a raw match in the data model: an object whose \<^verbatim>\<open>homeTeam\<close>, \<^verbatim>\<open>awayTeam\<close>,
  \<^verbatim>\<open>competition\<close>, \<^verbatim>\<open>score\<close> and \<^verbatim>\<open>score.fullTime\<close>, where present, are objects, and
  whose full-time goal counts, where present, are \<^verbatim>\<open>null\<close> or integers. Every key may
  be absent, and \<^verbatim>\<open>utcDate\<close>, the identifiers and the names may hold any value.
\<close>

fun is_dict :: "pyval \<Rightarrow> bool" where
  "is_dict (PDict kvs) = True"
| "is_dict v = False"

fun int_or_none :: "pyval \<Rightarrow> bool" where
  "int_or_none PNone = True"
| "int_or_none (PInt i) = True"
| "int_or_none v = False"

definition absent_or :: "(pyval \<Rightarrow> bool) \<Rightarrow> string \<Rightarrow> (string \<times> pyval) list \<Rightarrow> bool" where
  "absent_or P k kvs = (case map_of kvs k of None \<Rightarrow> True | Some v \<Rightarrow> P v)"

fun full_time_shape :: "pyval \<Rightarrow> bool" where
  "full_time_shape (PDict kvs) = (absent_or int_or_none ''home'' kvs \<and> absent_or int_or_none ''away'' kvs)"
| "full_time_shape v = False"

fun score_shape :: "pyval \<Rightarrow> bool" where
  "score_shape (PDict kvs) = absent_or full_time_shape ''fullTime'' kvs"
| "score_shape v = False"

fun raw_match_shape :: "pyval \<Rightarrow> bool" where
  "raw_match_shape (PDict kvs) =
     (absent_or is_dict ''homeTeam'' kvs \<and> absent_or is_dict ''awayTeam'' kvs \<and>
      absent_or score_shape ''score'' kvs \<and> absent_or is_dict ''competition'' kvs)"
| "raw_match_shape v = False"

text \<open>A match of the upstream list counts as finished when its \<^verbatim>\<open>status\<close> is the string
  \<^verbatim>\<open>FINISHED\<close>.\<close>

definition is_finished :: "pyval \<Rightarrow> bool" where
  "is_finished m = (dict_get m ''status'' PNone = Inr (PStr ''FINISHED''))"

text \<open>A group of the \<^verbatim>\<open>standings\<close> array: an object with a \<^verbatim>\<open>type\<close>, and with a \<^verbatim>\<open>table\<close>
  when the type is \<^verbatim>\<open>TOTAL\<close>.\<close>

definition is_total :: "pyval \<Rightarrow> bool" where
  "is_total s = (py_getitem s ''type'' = Inr (PStr ''TOTAL''))"

fun standings_group_shape :: "pyval \<Rightarrow> bool" where
  "standings_group_shape (PDict kvs) =
     (case map_of kvs ''type'' of
        None \<Rightarrow> False
      | Some ty \<Rightarrow> if ty = PStr ''TOTAL'' then map_of kvs ''table'' \<noteq> None else True)"
| "standings_group_shape v = False"

text \<open>A response that \<^verbatim>\<open>football_data_get\<close> takes as a success: none of the status codes
  it gives up on, and a body that parses.\<close>

fun success :: "http_result \<Rightarrow> pyval option" where
  "success (RequestFailed txt) = None"
| "success (Response code body) =
     (if code = 429 \<or> code = 403 \<or> code = 404 \<or> (400 \<le> code \<and> code < 600) then None
      else case body of Inl txt \<Rightarrow> None | Inr data \<Rightarrow> Some data)"

section \<open>The match list\<close>

subsection \<open>Auxiliary facts\<close>

lemmas entry_defs = build_match_entry_def home_id_def away_id_def home_name_def away_name_def
  home_score_def away_score_def home_team_def away_team_def score_def competition_name_def
  match_result_def parse_date_def Let_def

lemma bind_exn_Inr: "(bind_exn m f = Inr y) = (\<exists>x. m = Inr x \<and> f x = Inr y)"
  by (cases m) (simp_all add: bind_exn_def)

lemma bind_exn_simps [simp]: "bind_exn (Inl e) f = Inl e" "bind_exn (Inr x) f = f x"
  by (simp_all add: bind_exn_def)

lemma match_result_None:
  "match_result gf ga = Inr r \<Longrightarrow> (r = None) = (gf = PNone \<or> ga = PNone)"
  by (auto simp: match_result_def bind_exn_Inr split: if_splits)

lemma match_result_ints:
  "match_result (PInt a) (PInt b) = Inr (Some (if b < a then ''W'' else if a = b then ''D'' else ''L''))"
  by (simp add: match_result_def)

lemma build_match_entry_fields:
  assumes "build_match_entry repr f t m = Inr e"
  shows "\<exists>hid hsc asc hn an utc.
           home_id m = Inr hid \<and> home_score m = Inr hsc \<and> away_score m = Inr asc \<and>
           home_name m = Inr hn \<and> away_name m = Inr an \<and>
           dict_get m ''utcDate'' PNone = Inr utc \<and>
           is_home e = (py_str repr t = py_str repr hid) \<and>
           goals_for e = (if is_home e then hsc else asc) \<and>
           goals_against e = (if is_home e then asc else hsc) \<and>
           opponent e = (if is_home e then an else hn) \<and>
           match_result (goals_for e) (goals_against e) = Inr (result e) \<and>
           competition_name m = Inr (competition e) \<and>
           date e = parse_date f utc \<and> status e = ''Finalizado'' \<and> raw e = m"
  using assms unfolding build_match_entry_def bind_exn_Inr Let_def
  by (elim exE conjE) (simp, force)

lemma build_match_list_nth:
  "build_match_list_from_matches repr f ms t = Inr es \<Longrightarrow>
     length es = length ms \<and> (\<forall>i<length ms. build_match_entry repr f t (ms ! i) = Inr (es ! i))"
proof (induction ms arbitrary: es)
  case Nil
  then show ?case by simp
next
  case (Cons m ms)
  from Cons.prems obtain e es' where e: "build_match_entry repr f t m = Inr e"
    and es': "build_match_list_from_matches repr f ms t = Inr es'" and es: "es = e # es'"
    by (auto simp: bind_exn_Inr)
  from Cons.IH [OF es'] e es show ?case
    by (auto simp: nth_Cons split: nat.splits)
qed

lemma build_match_entry_perspective:
  assumes "home_id m = Inr hid"
    and "(py_str repr t = py_str repr hid) = (py_str repr t' = py_str repr hid)"
  shows "build_match_entry repr f t m = build_match_entry repr f t' m"
  using assms by (simp add: build_match_entry_def)

lemma str_int_57_61: "str_int 61 \<noteq> str_int 57" "str_int 61 = ''61''"
  by (simp_all add: str_int_def digits.simps digit_char_def)

subsection \<open>The result of a match\<close>

text \<open>
  Claim C1. In every entry that \<^verbatim>\<open>build_match_list_from_matches\<close> returns, the result is
  \<^verbatim>\<open>None\<close> (UNKNOWN) if and only if \<open>goals_for\<close> or \<open>goals_against\<close> is \<^verbatim>\<open>None\<close>, so no
  comparison is made on partial data; and for integer goal counts it is \<^verbatim>\<open>'W'\<close> (WIN)
  when \<open>goals_for > goals_against\<close>, \<^verbatim>\<open>'D'\<close> (DRAW) when they are equal and \<^verbatim>\<open>'L'\<close> (LOSS)
  when \<open>goals_for < goals_against\<close>.
\<close>

theorem result_by_goals:
  assumes "build_match_list_from_matches repr fromisoformat matches team_id = Inr entries"
    and "i < length matches"
  shows "(result (entries ! i) = None)
           = (goals_for (entries ! i) = PNone \<or> goals_against (entries ! i) = PNone) \<and>
         (\<forall>gf ga. goals_for (entries ! i) = PInt gf \<and> goals_against (entries ! i) = PInt ga \<longrightarrow>
            result (entries ! i) = Some (if ga < gf then ''W'' else if gf = ga then ''D'' else ''L''))"
proof -
  from build_match_list_nth [OF assms(1)] assms(2)
  have "build_match_entry repr fromisoformat team_id (matches ! i) = Inr (entries ! i)"
    by simp
  from build_match_entry_fields [OF this]
  have r: "match_result (goals_for (entries ! i)) (goals_against (entries ! i)) = Inr (result (entries ! i))"
    by blast
  have "(result (entries ! i) = None)
           = (goals_for (entries ! i) = PNone \<or> goals_against (entries ! i) = PNone)"
    by (rule match_result_None [OF r])
  moreover have "result (entries ! i) = Some (if ga < gf then ''W'' else if gf = ga then ''D'' else ''L'')"
    if "goals_for (entries ! i) = PInt gf" "goals_against (entries ! i) = PInt ga" for gf ga
    using r that by (simp add: match_result_ints)
  ultimately show ?thesis by blast
qed

text \<open>A win at home, and a match without the away goals.\<close>

theorem result_by_goals_witness:
  "build_match_list_from_matches (\<lambda>v. []) (\<lambda>s. Some s)
     [PDict [(''homeTeam'', PDict [(''id'', PInt 57)]),
             (''score'', PDict [(''fullTime'', PDict [(''home'', PInt 2), (''away'', PInt 1)])])],
      PDict [(''homeTeam'', PDict [(''id'', PInt 57)]),
             (''score'', PDict [(''fullTime'', PDict [(''home'', PInt 2)])])]]
     (PInt 57)
   = Inr [\<lparr> date = None, opponent = PStr [], goals_for = PInt 2, goals_against = PInt 1,
            result = Some ''W'', is_home = True, status = ''Finalizado'', competition = PStr [],
            raw = PDict [(''homeTeam'', PDict [(''id'', PInt 57)]),
                   (''score'', PDict [(''fullTime'', PDict [(''home'', PInt 2), (''away'', PInt 1)])])] \<rparr>,
          \<lparr> date = None, opponent = PStr [], goals_for = PInt 2, goals_against = PNone,
            result = None, is_home = True, status = ''Finalizado'', competition = PStr [],
            raw = PDict [(''homeTeam'', PDict [(''id'', PInt 57)]),
                   (''score'', PDict [(''fullTime'', PDict [(''home'', PInt 2)])])] \<rparr>]"
  (is "?call = Inr ?es")
proof -
  have h: "?call = Inr ?es"
    by (simp add: entry_defs)
  from result_by_goals [OF h, of 0] result_by_goals [OF h, of 1] h show ?thesis
    by simp
qed

subsection \<open>The role of the perspective team\<close>

text \<open>
  Claim C2. For every raw match and perspective team, \<open>is_home\<close> is true if and only if
  \<^verbatim>\<open>str(team_id)\<close> equals \<^verbatim>\<open>str(homeTeam.id)\<close>, and the goals and the opponent go by that
  role: at home the goals for are the home score and the opponent is the away team's
  name, otherwise the other way round. In particular a match with \<^verbatim>\<open>homeTeam.id = 57\<close>
  seen from team 61 (the integer or the string) has \<open>is_home\<close> false, the away score as
  goals for, the home score as goals against and the home team's name as opponent.
\<close>

theorem role_by_string_equality:
  assumes "build_match_list_from_matches repr fromisoformat matches team_id = Inr entries"
    and "i < length matches"
  shows "\<exists>hid hsc asc hn an.
           home_id (matches ! i) = Inr hid \<and>
           home_score (matches ! i) = Inr hsc \<and> away_score (matches ! i) = Inr asc \<and>
           home_name (matches ! i) = Inr hn \<and> away_name (matches ! i) = Inr an \<and>
           is_home (entries ! i) = (py_str repr team_id = py_str repr hid) \<and>
           goals_for (entries ! i) = (if is_home (entries ! i) then hsc else asc) \<and>
           goals_against (entries ! i) = (if is_home (entries ! i) then asc else hsc) \<and>
           opponent (entries ! i) = (if is_home (entries ! i) then an else hn) \<and>
           (hid = PInt 57 \<and> (team_id = PInt 61 \<or> team_id = PStr ''61'') \<longrightarrow>
              \<not> is_home (entries ! i) \<and> goals_for (entries ! i) = asc \<and>
              goals_against (entries ! i) = hsc \<and> opponent (entries ! i) = hn)"
proof -
  from build_match_list_nth [OF assms(1)] assms(2)
  have "build_match_entry repr fromisoformat team_id (matches ! i) = Inr (entries ! i)"
    by simp
  from build_match_entry_fields [OF this]
  obtain hid hsc asc hn an where f:
    "home_id (matches ! i) = Inr hid"
    "home_score (matches ! i) = Inr hsc" "away_score (matches ! i) = Inr asc"
    "home_name (matches ! i) = Inr hn" "away_name (matches ! i) = Inr an"
    "is_home (entries ! i) = (py_str repr team_id = py_str repr hid)"
    "goals_for (entries ! i) = (if is_home (entries ! i) then hsc else asc)"
    "goals_against (entries ! i) = (if is_home (entries ! i) then asc else hsc)"
    "opponent (entries ! i) = (if is_home (entries ! i) then an else hn)"
    by blast
  have away: "\<not> is_home (entries ! i)"
    if "hid = PInt 57" "team_id = PInt 61 \<or> team_id = PStr ''61''"
    using that f(6) str_int_57_61 by auto
  show ?thesis
    apply (rule exI [of _ hid], rule exI [of _ hsc], rule exI [of _ asc])
    apply (rule exI [of _ hn], rule exI [of _ an])
    using f away by simp
qed

text \<open>Arsenal (57) against Chelsea (61), 2-1, seen from \<^verbatim>\<open>'61'\<close> as the web layer passes it.\<close>

theorem role_by_string_equality_witness:
  "build_match_list_from_matches (\<lambda>v. []) (\<lambda>s. Some s)
     [PDict [(''homeTeam'', PDict [(''id'', PInt 57), (''name'', PStr ''Arsenal'')]),
             (''awayTeam'', PDict [(''id'', PInt 61), (''name'', PStr ''Chelsea'')]),
             (''score'', PDict [(''fullTime'', PDict [(''home'', PInt 2), (''away'', PInt 1)])])]]
     (PStr ''61'')
   = Inr [\<lparr> date = None, opponent = PStr ''Arsenal'', goals_for = PInt 1, goals_against = PInt 2,
            result = Some ''L'', is_home = False, status = ''Finalizado'', competition = PStr [],
            raw = PDict [(''homeTeam'', PDict [(''id'', PInt 57), (''name'', PStr ''Arsenal'')]),
                   (''awayTeam'', PDict [(''id'', PInt 61), (''name'', PStr ''Chelsea'')]),
                   (''score'', PDict [(''fullTime'', PDict [(''home'', PInt 2), (''away'', PInt 1)])])] \<rparr>]"
  (is "?call = Inr ?es")
proof -
  have h: "?call = Inr ?es"
    by (simp add: entry_defs str_int_def digits.simps digit_char_def)
  from role_by_string_equality [OF h, of 0] h show ?thesis
    by simp
qed

text \<open>
  Claim C10. For every raw match whose \<^verbatim>\<open>homeTeam.id\<close> does not string-equal the
  perspective team, the entry is an away match: \<open>is_home\<close> is false, the goals for are the
  away score, the goals against the home score and the opponent the home team's name.
  Nothing checks that the team took part: every perspective that is not the home team,
  on the away side or on neither, gets the same entry.
\<close>

theorem away_role_without_participation_check:
  assumes "build_match_list_from_matches repr fromisoformat matches team_id = Inr entries"
    and "i < length matches"
    and "home_id (matches ! i) = Inr hid"
    and "py_str repr team_id \<noteq> py_str repr hid"
  shows "\<not> is_home (entries ! i) \<and>
         away_score (matches ! i) = Inr (goals_for (entries ! i)) \<and>
         home_score (matches ! i) = Inr (goals_against (entries ! i)) \<and>
         home_name (matches ! i) = Inr (opponent (entries ! i)) \<and>
         (\<forall>other. py_str repr other \<noteq> py_str repr hid \<longrightarrow>
            build_match_entry repr fromisoformat other (matches ! i) = Inr (entries ! i))"
proof -
  from build_match_list_nth [OF assms(1)] assms(2)
  have e: "build_match_entry repr fromisoformat team_id (matches ! i) = Inr (entries ! i)"
    by simp
  from build_match_entry_fields [OF e] assms(3,4)
  have "\<not> is_home (entries ! i)"
    and "away_score (matches ! i) = Inr (goals_for (entries ! i))"
    and "home_score (matches ! i) = Inr (goals_against (entries ! i))"
    and "home_name (matches ! i) = Inr (opponent (entries ! i))"
    by auto
  moreover have "build_match_entry repr fromisoformat other (matches ! i) = Inr (entries ! i)"
    if "py_str repr other \<noteq> py_str repr hid" for other
    using build_match_entry_perspective [OF assms(3), of repr other team_id fromisoformat]
      that assms(4) e by simp
  ultimately show ?thesis by blast
qed

text \<open>Arsenal (57) against Chelsea (61), seen from team 64, which is on neither side.\<close>

theorem away_role_without_participation_check_witness:
  "build_match_list_from_matches (\<lambda>v. []) (\<lambda>s. Some s)
     [PDict [(''homeTeam'', PDict [(''id'', PInt 57), (''name'', PStr ''Arsenal'')]),
             (''awayTeam'', PDict [(''id'', PInt 61), (''name'', PStr ''Chelsea'')]),
             (''score'', PDict [(''fullTime'', PDict [(''home'', PInt 2), (''away'', PInt 1)])])]]
     (PInt 64)
   = Inr [\<lparr> date = None, opponent = PStr ''Arsenal'', goals_for = PInt 1, goals_against = PInt 2,
            result = Some ''L'', is_home = False, status = ''Finalizado'', competition = PStr [],
            raw = PDict [(''homeTeam'', PDict [(''id'', PInt 57), (''name'', PStr ''Arsenal'')]),
                   (''awayTeam'', PDict [(''id'', PInt 61), (''name'', PStr ''Chelsea'')]),
                   (''score'', PDict [(''fullTime'', PDict [(''home'', PInt 2), (''away'', PInt 1)])])] \<rparr>]
   \<and> home_id (PDict [(''homeTeam'', PDict [(''id'', PInt 57), (''name'', PStr ''Arsenal'')]),
             (''awayTeam'', PDict [(''id'', PInt 61), (''name'', PStr ''Chelsea'')]),
             (''score'', PDict [(''fullTime'', PDict [(''home'', PInt 2), (''away'', PInt 1)])])])
       = Inr (PInt 57)
   \<and> away_id (PDict [(''homeTeam'', PDict [(''id'', PInt 57), (''name'', PStr ''Arsenal'')]),
             (''awayTeam'', PDict [(''id'', PInt 61), (''name'', PStr ''Chelsea'')]),
             (''score'', PDict [(''fullTime'', PDict [(''home'', PInt 2), (''away'', PInt 1)])])])
       = Inr (PInt 61)
   \<and> py_str (\<lambda>v. []) (PInt 64) \<noteq> py_str (\<lambda>v. []) (PInt 57)
   \<and> py_str (\<lambda>v. []) (PInt 64) \<noteq> py_str (\<lambda>v. []) (PInt 61)"
  (is "?call = Inr ?es \<and> ?hid \<and> ?aid \<and> ?ne \<and> ?ne2")
proof -
  have h: "?call = Inr ?es"
    by (simp add: entry_defs str_int_def digits.simps digit_char_def)
  have hid: ?hid and aid: ?aid
    by (simp_all add: entry_defs)
  have ne: ?ne and ne2: ?ne2
    by (simp_all add: str_int_def digits.simps digit_char_def)
  from away_role_without_participation_check [OF h _ _ ne, of 0] h hid aid ne ne2 show ?thesis
    by simp
qed

subsection \<open>Totality and order\<close>

lemma is_dict_get: "is_dict v \<Longrightarrow> \<exists>x. dict_get v k d = Inr x"
  by (cases v) simp_all

lemma absent_or_get:
  "absent_or P k kvs \<Longrightarrow> P d \<Longrightarrow> \<exists>v. dict_get (PDict kvs) k d = Inr v \<and> P v"
  by (auto simp: absent_or_def split: option.splits)

lemma shape_home_team: "raw_match_shape m \<Longrightarrow> \<exists>v. home_team m = Inr v \<and> is_dict v"
  by (cases m) (auto simp: home_team_def absent_or_def split: option.splits)

lemma shape_away_team: "raw_match_shape m \<Longrightarrow> \<exists>v. away_team m = Inr v \<and> is_dict v"
  by (cases m) (auto simp: away_team_def absent_or_def split: option.splits)

lemma shape_score: "raw_match_shape m \<Longrightarrow> \<exists>v. score m = Inr v \<and> full_time_shape v"
proof (cases m)
  case (PDict kvs)
  assume "raw_match_shape m"
  with PDict have "absent_or score_shape ''score'' kvs" by simp
  from absent_or_get [OF this, of "PDict []"]
  obtain s where s: "dict_get (PDict kvs) ''score'' (PDict []) = Inr s" "score_shape s"
    by (auto simp: absent_or_def)
  then obtain kvs' where s': "s = PDict kvs'" "absent_or full_time_shape ''fullTime'' kvs'"
    by (cases s) simp_all
  from absent_or_get [OF s'(2), of "PDict []"]
  obtain ft where "dict_get (PDict kvs') ''fullTime'' (PDict []) = Inr ft" "full_time_shape ft"
    by (auto simp: absent_or_def)
  with s s' PDict show ?thesis
    by (simp add: score_def)
qed simp_all

lemma shape_goal:
  assumes "full_time_shape v" and "k = ''home'' \<or> k = ''away''"
  shows "\<exists>g. dict_get v k PNone = Inr g \<and> int_or_none g"
  using assms by (cases v) (auto simp: absent_or_def split: option.splits)

lemma match_result_total:
  "int_or_none a \<Longrightarrow> int_or_none b \<Longrightarrow> \<exists>r. match_result a b = Inr r"
  by (cases a; cases b) (simp_all add: match_result_def)

lemma shape_competition: "raw_match_shape m \<Longrightarrow> \<exists>c. competition_name m = Inr c"
proof (cases m)
  case (PDict kvs)
  assume "raw_match_shape m"
  with PDict have "absent_or is_dict ''competition'' kvs" by simp
  from absent_or_get [OF this, of "PDict []"]
  obtain c where "dict_get (PDict kvs) ''competition'' (PDict []) = Inr c" "is_dict c"
    by auto
  with PDict is_dict_get [of c "''name''" "PStr []"] show ?thesis
    by (auto simp: competition_name_def)
qed simp_all

lemma build_match_entry_total:
  assumes "raw_match_shape m"
  shows "\<exists>e. build_match_entry repr f t m = Inr e"
proof -
  from assms obtain utc where utc: "dict_get m ''utcDate'' PNone = Inr utc"
    by (cases m) simp_all
  from shape_home_team [OF assms] obtain ht where ht: "home_team m = Inr ht" "is_dict ht"
    by blast
  from shape_away_team [OF assms] obtain atm where atm: "away_team m = Inr atm" "is_dict atm"
    by blast
  from shape_score [OF assms] obtain sc where sc: "score m = Inr sc" "full_time_shape sc"
    by blast
  from is_dict_get [OF ht(2), of "''id''" PNone] is_dict_get [OF ht(2), of "''name''" "PStr []"] ht(1)
  obtain hid hn where hid: "home_id m = Inr hid" and hn: "home_name m = Inr hn"
    by (auto simp: home_id_def home_name_def)
  from is_dict_get [OF atm(2), of "''id''" PNone] is_dict_get [OF atm(2), of "''name''" "PStr []"] atm(1)
  obtain aid an where aid: "away_id m = Inr aid" and an: "away_name m = Inr an"
    by (auto simp: away_id_def away_name_def)
  from shape_goal [OF sc(2), of "''home''"] sc(1)
  obtain hsc where hsc: "home_score m = Inr hsc" "int_or_none hsc"
    by (auto simp: home_score_def)
  from shape_goal [OF sc(2), of "''away''"] sc(1)
  obtain asc where asc: "away_score m = Inr asc" "int_or_none asc"
    by (auto simp: away_score_def)
  from shape_competition [OF assms] obtain c where c: "competition_name m = Inr c"
    by blast
  from match_result_total [OF hsc(2) asc(2)] match_result_total [OF asc(2) hsc(2)]
  obtain r1 r2 where "match_result hsc asc = Inr r1" "match_result asc hsc = Inr r2"
    by blast
  with utc hid hn aid an hsc asc c show ?thesis
    by (simp add: build_match_entry_def Let_def)
qed

lemma build_match_list_total:
  "list_all raw_match_shape ms \<Longrightarrow> \<exists>es. build_match_list_from_matches repr f ms t = Inr es"
proof (induction ms)
  case Nil
  then show ?case by simp
next
  case (Cons m ms)
  then obtain es where "build_match_list_from_matches repr f ms t = Inr es"
    by auto
  moreover from Cons.prems build_match_entry_total [of m repr f t]
  obtain e where "build_match_entry repr f t m = Inr e"
    by auto
  ultimately show ?case by simp
qed

text \<open>
  Claim C9 as stated (normalization never raises and never drops a record, whatever is
  malformed in a match) fails: a match whose \<^verbatim>\<open>score\<close> is \<^verbatim>\<open>null\<close> raises AttributeError,
  and the call returns no entry, not even for the well-formed match before it.
\<close>

theorem normalization_raises_counterexample:
  "build_match_list_from_matches (\<lambda>v. []) (\<lambda>s. Some s)
     [PDict [(''utcDate'', PStr ''2023-08-12T14:00:00Z''),
             (''homeTeam'', PDict [(''id'', PInt 57), (''name'', PStr ''Arsenal'')]),
             (''awayTeam'', PDict [(''id'', PInt 61), (''name'', PStr ''Chelsea'')]),
             (''score'', PDict [(''fullTime'', PDict [(''home'', PInt 2), (''away'', PInt 1)])])],
      PDict [(''utcDate'', PStr ''2023-08-19T14:00:00Z''),
             (''homeTeam'', PDict [(''id'', PInt 57), (''name'', PStr ''Arsenal'')]),
             (''awayTeam'', PDict [(''id'', PInt 65), (''name'', PStr ''City'')]),
             (''score'', PNone)]]
     (PInt 57)
   = Inl AttributeError"
  by (simp add: entry_defs str_int_def digits.simps digit_char_def replace_Z_def)

text \<open>
  Claim C9, amended. For every sequence of raw matches of the data model's shape (each
  an object whose \<^verbatim>\<open>homeTeam\<close>, \<^verbatim>\<open>awayTeam\<close>, \<^verbatim>\<open>competition\<close>, \<^verbatim>\<open>score\<close> and
  \<^verbatim>\<open>score.fullTime\<close>, where present, are objects and whose goal counts, where present, are
  \<^verbatim>\<open>null\<close> or integers), normalization raises nothing and returns exactly one entry per
  match in the same order. Each entry depends on its own match only. An absent or
  unparsable \<^verbatim>\<open>utcDate\<close> gives the date \<^verbatim>\<open>None\<close>, and the result is \<^verbatim>\<open>None\<close> exactly when a
  full-time score is absent or \<^verbatim>\<open>null\<close>.
\<close>

theorem normalization_of_shaped_matches:
  assumes "list_all raw_match_shape matches"
  shows "\<exists>entries.
           build_match_list_from_matches repr fromisoformat matches team_id = Inr entries \<and>
           length entries = length matches \<and>
           map raw entries = matches \<and>
           (\<forall>i<length matches.
              build_match_entry repr fromisoformat team_id (matches ! i) = Inr (entries ! i) \<and>
              (\<exists>utc. dict_get (matches ! i) ''utcDate'' PNone = Inr utc \<and>
                 date (entries ! i) = parse_date fromisoformat utc) \<and>
              (result (entries ! i) = None)
                = (home_score (matches ! i) = Inr PNone \<or> away_score (matches ! i) = Inr PNone)) \<and>
           parse_date fromisoformat PNone = None \<and>
           (\<forall>s. fromisoformat (replace_Z s) = None \<longrightarrow> parse_date fromisoformat (PStr s) = None)"
proof -
  from build_match_list_total [OF assms]
  obtain entries where es: "build_match_list_from_matches repr fromisoformat matches team_id = Inr entries"
    by blast
  note nth = build_match_list_nth [OF es]
  have len: "length entries = length matches"
    using nth by simp
  have each: "build_match_entry repr fromisoformat team_id (matches ! i) = Inr (entries ! i)"
    if "i < length matches" for i
    using nth that by simp
  have raws: "map raw entries = matches"
  proof (rule nth_equalityI)
    show "length (map raw entries) = length matches"
      using len by simp
  next
    fix i assume "i < length (map raw entries)"
    then have i: "i < length matches" using len by simp
    from build_match_entry_fields [OF each [OF i]] have "raw (entries ! i) = matches ! i"
      by blast
    with i len show "map raw entries ! i = matches ! i"
      by simp
  qed
  have fields: "(\<exists>utc. dict_get (matches ! i) ''utcDate'' PNone = Inr utc \<and>
                 date (entries ! i) = parse_date fromisoformat utc) \<and>
              (result (entries ! i) = None)
                = (home_score (matches ! i) = Inr PNone \<or> away_score (matches ! i) = Inr PNone)"
    if i: "i < length matches" for i
  proof -
    from build_match_entry_fields [OF each [OF i]]
    obtain hsc asc utc where f:
      "home_score (matches ! i) = Inr hsc" "away_score (matches ! i) = Inr asc"
      "dict_get (matches ! i) ''utcDate'' PNone = Inr utc"
      "goals_for (entries ! i) = (if is_home (entries ! i) then hsc else asc)"
      "goals_against (entries ! i) = (if is_home (entries ! i) then asc else hsc)"
      "match_result (goals_for (entries ! i)) (goals_against (entries ! i)) = Inr (result (entries ! i))"
      "date (entries ! i) = parse_date fromisoformat utc"
      by blast
    from match_result_None [OF f(6)] f(1-5,7) show ?thesis
      by auto
  qed
  have "parse_date fromisoformat PNone = None"
    and "\<forall>s. fromisoformat (replace_Z s) = None \<longrightarrow> parse_date fromisoformat (PStr s) = None"
    by (simp_all add: parse_date_def)
  with es len raws each fields show ?thesis
    by blast
qed

text \<open>A match with an unparsable date and no home score, and an empty object.\<close>

theorem normalization_of_shaped_matches_witness:
  "list_all raw_match_shape
     [PDict [(''utcDate'', PStr ''12/08/2023''),
             (''homeTeam'', PDict [(''id'', PInt 57)]),
             (''score'', PDict [(''fullTime'', PDict [(''home'', PNone), (''away'', PInt 1)])])],
      PDict []]
   \<and> build_match_list_from_matches (\<lambda>v. []) (\<lambda>s. if s = ''12/08/2023'' then None else Some s)
     [PDict [(''utcDate'', PStr ''12/08/2023''),
             (''homeTeam'', PDict [(''id'', PInt 57)]),
             (''score'', PDict [(''fullTime'', PDict [(''home'', PNone), (''away'', PInt 1)])])],
      PDict []]
     (PInt 57)
   = Inr [\<lparr> date = None, opponent = PStr [], goals_for = PNone, goals_against = PInt 1,
            result = None, is_home = True, status = ''Finalizado'', competition = PStr [],
            raw = PDict [(''utcDate'', PStr ''12/08/2023''),
                   (''homeTeam'', PDict [(''id'', PInt 57)]),
                   (''score'', PDict [(''fullTime'', PDict [(''home'', PNone), (''away'', PInt 1)])])] \<rparr>,
          \<lparr> date = None, opponent = PStr [], goals_for = PNone, goals_against = PNone,
            result = None, is_home = False, status = ''Finalizado'', competition = PStr [],
            raw = PDict [] \<rparr>]"
  (is "?shape \<and> ?call = Inr ?es")
proof -
  have s: ?shape
    by (simp add: absent_or_def)
  from normalization_of_shaped_matches [OF s, of "\<lambda>v. []" "\<lambda>s. if s = ''12/08/2023'' then None else Some s" "PInt 57"]
  obtain entries where "?call = Inr entries" "length entries = 2"
    by auto
  moreover have "?call = Inr ?es"
    by (simp add: entry_defs str_int_def digits.simps digit_char_def replace_Z_def)
  ultimately show ?thesis using s by simp
qed

section \<open>The fetch operations\<close>

subsection \<open>Auxiliary facts\<close>

lemmas fetch_defs = get_teams_in_league_def get_team_by_id_def get_last_matches_for_team_def
  get_league_standings_def

lemma rate_limited_request_keeps [simp]:
  "requests (rate_limited_request e) = requests e"
  "flashes (rate_limited_request e) = flashes e"
  by (simp_all add: rate_limited_request_def Let_def)

lemma football_data_get_requests:
  "requests (snd (football_data_get up ep e)) = api_url ep # requests e"
  by (simp add: football_data_get_def Let_def flash_def split: http_result.splits sum.splits)

lemma football_data_get_data:
  "fst (football_data_get up ep e)
     = (case success (up (length (requests e)) (api_url ep)) of None \<Rightarrow> PNone | Some data \<Rightarrow> data)"
  by (auto simp: football_data_get_def Let_def split: http_result.splits sum.splits)

lemma map_of_tl_None: "map_of cache k = None \<Longrightarrow> map_of (tl cache) k = None"
  by (cases cache) (auto split: if_splits)

lemma map_of_without_key: "map_of (filter (\<lambda>kv. fst kv \<noteq> k) cache) k = None"
  by (auto simp: map_of_eq_None_iff)

lemma map_of_without_other:
  "k' \<noteq> k \<Longrightarrow> map_of (filter (\<lambda>kv. fst kv \<noteq> k) cache) k' = map_of cache k'"
  by (induction cache) auto

lemma lru_cache_hit:
  "map_of cache k = Some v \<Longrightarrow>
     lru_cache n f k cache e = (Inr v, filter (\<lambda>kv. fst kv \<noteq> k) cache @ [(k, v)], e)"
  by (simp add: lru_cache_def)

lemma lru_cache_miss:
  "map_of cache k = None \<Longrightarrow>
     lru_cache n f k cache e =
       (case f k e of
          (Inl err, e') \<Rightarrow> (Inl err, cache, e')
        | (Inr v, e') \<Rightarrow> (Inr v, (if n \<le> length cache then tl cache else cache) @ [(k, v)], e'))"
  by (simp add: lru_cache_def)

lemma lru_cache_stores:
  assumes "lru_cache n f k cache e = (Inr v, cache', e')"
  shows "map_of cache' k = Some v"
proof (cases "map_of cache k")
  case None
  with assms map_of_tl_None [OF None] show ?thesis
    by (auto simp: lru_cache_miss map_add_def split: prod.splits sum.splits if_splits)
next
  case (Some u)
  with assms show ?thesis
    by (auto simp: lru_cache_hit map_add_def map_of_without_key)
qed

lemma lru_cache_other_key:
  assumes "map_of cache k' = None" and "k' \<noteq> k"
    and "lru_cache n f k cache e = (r, cache', e')"
  shows "map_of cache' k' = None"
proof (cases "map_of cache k")
  case None
  with assms map_of_tl_None [OF assms(1)] show ?thesis
    by (auto simp: lru_cache_miss map_add_def split: prod.splits sum.splits if_splits)
next
  case (Some u)
  with assms map_of_without_other [OF assms(2), of cache] show ?thesis
    by (auto simp: lru_cache_hit map_add_def)
qed

lemma fetch_hit:
  assumes "cached c w"
  shows "\<exists>v. fst (fetch up c w) = Inr v \<and> io (snd (fetch up c w)) = io w"
  using assms
  by (cases c)
    (auto simp: cached_def get_teams_in_league_def get_team_by_id_def get_last_matches_for_team_def
      get_league_standings_def lru_cache_hit)

lemma body_eq:
  "get_teams_in_league_body up a e
     = (from_data (Teams a) (fst (football_data_get up (endpoint (Teams a)) e)),
        snd (football_data_get up (endpoint (Teams a)) e))"
  "get_team_by_id_body up t e
     = (from_data (Team t) (fst (football_data_get up (endpoint (Team t)) e)),
        snd (football_data_get up (endpoint (Team t)) e))"
  "get_last_matches_for_team_body up b e
     = (from_data (Matches b) (fst (football_data_get up (endpoint (Matches b)) e)),
        snd (football_data_get up (endpoint (Matches b)) e))"
  "get_league_standings_body up a e
     = (from_data (Standings a) (fst (football_data_get up (endpoint (Standings a)) e)),
        snd (football_data_get up (endpoint (Standings a)) e))"
  by (simp_all add: get_teams_in_league_body_def get_team_by_id_body_def
      get_last_matches_for_team_body_def get_league_standings_body_def split: prod.splits)

lemma fetch_miss:
  assumes "\<not> cached c w"
  shows "fst (fetch up c w) = from_data c (fst (football_data_get up (endpoint c) (io w)))"
    and "io (snd (fetch up c w)) = snd (football_data_get up (endpoint c) (io w))"
  using assms
  by (cases c;
      simp add: cached_def get_teams_in_league_def get_team_by_id_def get_last_matches_for_team_def
        get_league_standings_def lru_cache_miss body_eq split: prod.splits sum.splits)+

lemma fetch_stores:
  assumes "fetch up c w = (Inr v, w1)"
  shows "cached_value c w1 = Some v"
  using assms
  by (cases c) (auto simp: fetch_defs split: prod.splits dest: lru_cache_stores)

lemma fetch_hit_value:
  assumes "cached_value c w = Some v"
  shows "fst (fetch up c w) = Inr v" and "io (snd (fetch up c w)) = io w"
  using assms by (cases c; simp add: fetch_defs lru_cache_hit)+

lemma fetch_requests:
  "length (requests (io (snd (fetch up c w)))) \<le> Suc (length (requests (io w)))"
proof (cases "cached c w")
  case True
  from fetch_hit [OF True] show ?thesis by auto
next
  case False
  from fetch_miss(2) [OF False] show ?thesis
    by (simp add: football_data_get_requests)
qed

subsection \<open>Repeated calls\<close>

text \<open>
  Claim C6. For every fetch operation, when a call has returned a value, the same call
  again is a cache hit: it returns that value and leaves the clock, \<^verbatim>\<open>LAST_REQUEST_TIME\<close>,
  the requests and the flashes as they were (no network call, no rate limiting), so the
  two calls issue at most one request.
\<close>

theorem second_call_is_a_cache_hit:
  assumes "fetch up c w = (Inr v, w1)"
  shows "fst (fetch up c w1) = Inr v \<and>
         io (snd (fetch up c w1)) = io w1 \<and>
         length (requests (io (snd (fetch up c w1)))) \<le> Suc (length (requests (io w)))"
proof -
  from fetch_stores [OF assms] have hit: "cached_value c w1 = Some v" .
  have "fst (fetch up c w1) = Inr v" and same: "io (snd (fetch up c w1)) = io w1"
    by (rule fetch_hit_value [OF hit])+
  moreover from fetch_requests [of up c w] assms
  have "length (requests (io w1)) \<le> Suc (length (requests (io w)))"
    by simp
  ultimately show ?thesis by simp
qed

text \<open>Team 57 asked for twice, from the start of the process: one request.\<close>

theorem second_call_is_a_cache_hit_witness:
  "fst (fetch (\<lambda>n url. Response 200 (Inr (PDict [(''id'', PInt 57)]))) (Team ''57'') (initial_world 0))
     = Inr (PDict [(''id'', PInt 57)]) \<and>
   fst (fetch (\<lambda>n url. Response 200 (Inr (PDict [(''id'', PInt 57)]))) (Team ''57'')
          (snd (fetch (\<lambda>n url. Response 200 (Inr (PDict [(''id'', PInt 57)]))) (Team ''57'') (initial_world 0))))
     = Inr (PDict [(''id'', PInt 57)]) \<and>
   requests (io (snd (fetch (\<lambda>n url. Response 200 (Inr (PDict [(''id'', PInt 57)]))) (Team ''57'')
          (snd (fetch (\<lambda>n url. Response 200 (Inr (PDict [(''id'', PInt 57)]))) (Team ''57'') (initial_world 0))))))
     = [''https://api.football-data.org/v4/teams/57'']"
  (is "fst (fetch ?U ?c ?w) = Inr ?v \<and> _ \<and> _")
proof -
  have miss: "\<not> cached ?c ?w"
    by (simp add: cached_def initial_world_def)
  have first: "fst (fetch ?U ?c ?w) = Inr ?v"
    and reqs: "requests (io (snd (fetch ?U ?c ?w))) = [''https://api.football-data.org/v4/teams/57'']"
    using fetch_miss [OF miss, of ?U]
    by (simp_all add: initial_world_def football_data_get_data football_data_get_requests
        api_url_def team_endpoint_def del: fetch.simps)
  then have h: "fetch ?U ?c ?w = (Inr ?v, snd (fetch ?U ?c ?w))"
    by (simp add: prod_eq_iff)
  from second_call_is_a_cache_hit [OF h] first reqs show ?thesis
    by (simp del: fetch.simps)
qed

subsection \<open>Failures of the transport\<close>

lemma from_data_None: "from_data c PNone = Inr (empty_result c)"
  by (cases c) (simp_all add: teams_of_def last_matches_of_def standings_of_def with_key_def)

lemma football_data_get_flashes:
  "flashes (snd (football_data_get up ep e)) =
     (case up (length (requests e)) (api_url ep) of
        RequestFailed txt \<Rightarrow> [(Error_de_conexion (ConnectionProblem txt), ''danger'')]
      | Response code body \<Rightarrow>
          if code = 429 then [(Limite_excedido, ''warning'')]
          else if code = 403 then [(API_Key_invalida, ''danger'')]
          else if code = 404 then []
          else if 400 \<le> code \<and> code < 600 then [(Error_de_conexion (HTTPError code), ''danger'')]
          else (case body of
                  Inl txt \<Rightarrow> [(Error_de_conexion (JSONDecodeError txt), ''danger'')]
                | Inr data \<Rightarrow> [])) @ flashes e"
  by (auto simp: football_data_get_def Let_def flash_def split: http_result.splits sum.splits)

text \<open>
  Claim C7. When a fetch operation goes to the network and the transport fails (the
  request raises, the status is 429, 403, 404 or another error status, or the body does
  not parse), the operation raises nothing and returns its empty result: the empty list,
  or the empty object for the team information. A 429 flashes the warning about the
  request limit, a 403 the message about the API key, a failed request the connection
  error with its cause; a 404 flashes nothing, and every other failure flashes exactly
  one message.
\<close>

theorem transport_failure_gives_empty_result:
  assumes "\<not> cached c w"
    and "success (up (length (requests (io w))) (api_url (endpoint c))) = None"
  shows "fst (fetch up c w) = Inr (empty_result c) \<and>
         (\<forall>body. up (length (requests (io w))) (api_url (endpoint c)) = Response 429 body \<longrightarrow>
            flashes (io (snd (fetch up c w))) = (Limite_excedido, ''warning'') # flashes (io w)) \<and>
         (\<forall>body. up (length (requests (io w))) (api_url (endpoint c)) = Response 403 body \<longrightarrow>
            flashes (io (snd (fetch up c w))) = (API_Key_invalida, ''danger'') # flashes (io w)) \<and>
         (\<forall>body. up (length (requests (io w))) (api_url (endpoint c)) = Response 404 body \<longrightarrow>
            flashes (io (snd (fetch up c w))) = flashes (io w)) \<and>
         (\<forall>txt. up (length (requests (io w))) (api_url (endpoint c)) = RequestFailed txt \<longrightarrow>
            flashes (io (snd (fetch up c w)))
              = (Error_de_conexion (ConnectionProblem txt), ''danger'') # flashes (io w)) \<and>
         ((\<exists>body. up (length (requests (io w))) (api_url (endpoint c)) = Response 404 body) \<or>
          (\<exists>advisory. flashes (io (snd (fetch up c w))) = advisory # flashes (io w)))"
proof -
  let ?r = "up (length (requests (io w))) (api_url (endpoint c))"
  have "fst (football_data_get up (endpoint c) (io w)) = PNone"
    using assms(2) by (simp add: football_data_get_data)
  then have empty: "fst (fetch up c w) = Inr (empty_result c)"
    using fetch_miss(1) [OF assms(1), of up] by (simp add: from_data_None)
  have fl: "flashes (io (snd (fetch up c w))) = flashes (snd (football_data_get up (endpoint c) (io w)))"
    using fetch_miss(2) [OF assms(1), of up] by simp
  have "flashes (io (snd (fetch up c w))) = (Limite_excedido, ''warning'') # flashes (io w)"
    if "?r = Response 429 body" for body
    using that by (simp add: fl football_data_get_flashes)
  moreover have "flashes (io (snd (fetch up c w))) = (API_Key_invalida, ''danger'') # flashes (io w)"
    if "?r = Response 403 body" for body
    using that by (simp add: fl football_data_get_flashes)
  moreover have "flashes (io (snd (fetch up c w))) = flashes (io w)"
    if "?r = Response 404 body" for body
    using that by (simp add: fl football_data_get_flashes)
  moreover have "flashes (io (snd (fetch up c w)))
      = (Error_de_conexion (ConnectionProblem why), ''danger'') # flashes (io w)"
    if "?r = RequestFailed why" for why
    using that by (simp add: fl football_data_get_flashes)
  moreover have "(\<exists>body. ?r = Response 404 body) \<or>
      (\<exists>advisory. flashes (io (snd (fetch up c w))) = advisory # flashes (io w))"
    using assms(2)
    by (cases ?r) (auto simp: fl football_data_get_flashes split: sum.splits if_splits)
  ultimately show ?thesis using empty by blast
qed

text \<open>The teams of the Premier League, answered by a 429.\<close>

theorem transport_failure_gives_empty_result_witness:
  "\<not> cached (Teams (''PL'', Passed (Some ''2023''))) (initial_world 0) \<and>
   success (Response 429 (Inl [])) = None \<and>
   fst (fetch (\<lambda>n url. Response 429 (Inl [])) (Teams (''PL'', Passed (Some ''2023''))) (initial_world 0))
     = Inr (PList []) \<and>
   flashes (io (snd (fetch (\<lambda>n url. Response 429 (Inl [])) (Teams (''PL'', Passed (Some ''2023'')))
       (initial_world 0))))
     = [(Limite_excedido, ''warning'')]"
  (is "\<not> cached ?c ?w \<and> _ \<and> fst (fetch ?U ?c ?w) = _ \<and> _")
proof -
  have miss: "\<not> cached ?c ?w"
    by (simp add: cached_def initial_world_def)
  have fail: "success (?U (length (requests (io ?w))) (api_url (endpoint ?c))) = None"
    by simp
  from transport_failure_gives_empty_result [OF miss fail] miss show ?thesis
    by (simp add: initial_world_def)
qed

subsection \<open>Cache keys\<close>

lemma fetch_other_key:
  assumes "c \<noteq> c'" and "cached_value c' w = None"
  shows "cached_value c' (snd (fetch up c w)) = None"
proof (cases "same_operation c c'")
  case False
  with assms(2) show ?thesis
    by (cases c; cases c') (simp_all add: fetch_defs split: prod.splits)
next
  case True
  with assms show ?thesis
    by (cases c; cases c')
      (auto simp: fetch_defs split: prod.splits dest: lru_cache_other_key [rotated 2])
qed

text \<open>
  Claim C4, amended. The key of a cache entry is the tuple of the arguments as they
  were passed. Two calls that differ in any argument never share an entry: when the
  second is not in its cache before the first call, it is not after it either, and goes
  to the network. The default season \<^verbatim>\<open>"2023"\<close> is filled in inside the cached function,
  after the key is computed: a call that omits the season and a call that passes
  \<^verbatim>\<open>"2023"\<close> ask for the same endpoint, but are different keys.
\<close>

theorem cache_key_is_the_argument_tuple:
  assumes "c \<noteq> c'" and "\<not> cached c' w"
  shows "\<not> cached c' (snd (fetch up c w)) \<and>
         requests (io (snd (fetch up c' (snd (fetch up c w)))))
           = api_url (endpoint c') # requests (io (snd (fetch up c w))) \<and>
         Teams (league_code, Omitted) \<noteq> Teams (league_code, Passed (Some ''2023'')) \<and>
         endpoint (Teams (league_code, Omitted)) = endpoint (Teams (league_code, Passed (Some ''2023''))) \<and>
         Matches (team_id, Omitted, limit) \<noteq> Matches (team_id, Passed (Some ''2023''), limit) \<and>
         endpoint (Matches (team_id, Omitted, limit))
           = endpoint (Matches (team_id, Passed (Some ''2023''), limit)) \<and>
         Standings (league_code, Omitted) \<noteq> Standings (league_code, Passed (Some ''2023'')) \<and>
         endpoint (Standings (league_code, Omitted))
           = endpoint (Standings (league_code, Passed (Some ''2023'')))"
proof -
  from assms(2) have "cached_value c' w = None"
    by (simp add: cached_def)
  from fetch_other_key [OF assms(1) this]
  have miss: "\<not> cached c' (snd (fetch up c w))"
    by (simp add: cached_def)
  from fetch_miss(2) [OF miss]
  have "requests (io (snd (fetch up c' (snd (fetch up c w)))))
           = api_url (endpoint c') # requests (io (snd (fetch up c w)))"
    by (simp add: football_data_get_requests)
  with miss show ?thesis
    by (simp add: teams_endpoint_def matches_endpoint_def standings_endpoint_def
        season_or_2023_def)
qed

text \<open>The teams of the Premier League, without a season and with \<^verbatim>\<open>"2023"\<close>.\<close>

theorem cache_key_is_the_argument_tuple_witness:
  "Teams (''PL'', Omitted) \<noteq> Teams (''PL'', Passed (Some ''2023'')) \<and>
   \<not> cached (Teams (''PL'', Passed (Some ''2023''))) (initial_world 0) \<and>
   \<not> cached (Teams (''PL'', Passed (Some ''2023'')))
       (snd (fetch (\<lambda>n url. Response 200 (Inr (PDict [(''teams'', PList [])])))
         (Teams (''PL'', Omitted)) (initial_world 0))) \<and>
   endpoint (Teams (''PL'', Omitted)) = ''competitions/PL/teams?season=2023'' \<and>
   endpoint (Teams (''PL'', Passed (Some ''2023''))) = ''competitions/PL/teams?season=2023''"
  (is "?c \<noteq> ?c' \<and> \<not> cached ?c' ?w \<and> _")
proof -
  have ne: "?c \<noteq> ?c'"
    by simp
  have miss: "\<not> cached ?c' ?w"
    by (simp add: cached_def initial_world_def)
  from cache_key_is_the_argument_tuple [OF ne miss] ne miss show ?thesis
    by (simp add: teams_endpoint_def season_or_2023_def)
qed

text \<open>
  Claim C4 as stated (a call that omits the season and a call that passes
  \<^verbatim>\<open>season="2023"\<close> hit the same cache entry) fails: from the start of the process, after
  \<^verbatim>\<open>get_teams_in_league('PL')\<close> the call \<^verbatim>\<open>get_teams_in_league('PL', '2023')\<close> is not in
  the cache, and it sends the same request a second time.
\<close>

theorem default_season_key_counterexample:
  "\<not> cached (Teams (''PL'', Passed (Some ''2023'')))
       (snd (fetch (\<lambda>n url. Response 200 (Inr (PDict [(''teams'', PList [])])))
         (Teams (''PL'', Omitted)) (initial_world 0))) \<and>
   requests (io (snd (fetch (\<lambda>n url. Response 200 (Inr (PDict [(''teams'', PList [])])))
       (Teams (''PL'', Passed (Some ''2023'')))
       (snd (fetch (\<lambda>n url. Response 200 (Inr (PDict [(''teams'', PList [])])))
         (Teams (''PL'', Omitted)) (initial_world 0))))))
     = [''https://api.football-data.org/v4/competitions/PL/teams?season=2023'',
        ''https://api.football-data.org/v4/competitions/PL/teams?season=2023'']"
  by (simp add: cached_def initial_world_def fetch_defs lru_cache_def
      get_teams_in_league_body_def football_data_get_def rate_limited_request_def
      REQUEST_DELAY_def Let_def api_url_def teams_endpoint_def season_or_2023_def
      teams_of_def with_key_def)

subsection \<open>The last matches of a team\<close>

lemma py_eq_PStr: "py_eq v (PStr s) = (v = PStr s)"
  by (cases v) simp_all

lemma finished_matches_Inr:
  "finished_matches ms = Inr fs \<Longrightarrow> fs = filter is_finished ms"
proof (induction ms arbitrary: fs)
  case Nil
  then show ?case by simp
next
  case (Cons m ms)
  from Cons.prems obtain st rest where st: "dict_get m ''status'' PNone = Inr st"
    and rest: "finished_matches ms = Inr rest"
    and fs: "fs = (if py_eq st (PStr ''FINISHED'') then m # rest else rest)"
    by (auto simp: bind_exn_Inr)
  from Cons.IH [OF rest] st fs show ?case
    by (simp add: is_finished_def py_eq_PStr)
qed

lemma finished_matches_dicts:
  "list_all is_dict ms \<Longrightarrow> finished_matches ms = Inr (filter is_finished ms)"
proof (induction ms)
  case Nil
  then show ?case by simp
next
  case (Cons m ms)
  then obtain kvs where "m = PDict kvs"
    by (cases m) simp_all
  with Cons show ?case
    by (simp add: is_finished_def py_eq_PStr)
qed

lemma py_slice_to_take: "0 \<le> n \<Longrightarrow> py_slice_to xs n = take (nat n) xs"
  by (simp add: py_slice_to_def)

lemma with_key_dict:
  "with_key k (PDict kvs) rest
     = (if map_of kvs k = None then Inr (PList []) else rest (PDict kvs))"
  by (cases kvs) (auto simp: with_key_def)

lemma with_key_Inr:
  assumes "with_key k data rest = Inr v"
  shows "v = PList [] \<or> rest data = Inr v"
  using assms by (auto simp: with_key_def bind_exn_Inr split: if_splits)

lemma last_matches_of_Inr:
  assumes "last_matches_of lmt data = Inr v" and "0 \<le> lmt"
  shows "\<exists>xs. v = PList xs \<and> int (length xs) \<le> lmt \<and> list_all is_finished xs"
proof -
  from with_key_Inr [OF assms(1) [unfolded last_matches_of_def]]
  consider "v = PList []"
    | items finished where "finished_matches items = Inr finished"
        "v = PList (py_slice_to finished lmt)"
    by (auto simp: bind_exn_Inr)
  then show ?thesis
  proof cases
    case 1
    with assms(2) show ?thesis by simp
  next
    case 2
    from finished_matches_Inr [OF 2(1)] have "list_all is_finished finished"
      by (simp add: list_all_iff)
    then have "list_all is_finished (take (nat lmt) finished)"
      by (auto simp: list_all_iff dest: in_set_takeD)
    with 2(2) assms(2) show ?thesis
      by (simp add: py_slice_to_take)
  qed
qed

lemma last_matches_of_dict:
  assumes "map_of kvs ''matches'' = Some (PList ms)" and "list_all is_dict ms" and "0 \<le> lmt"
  shows "last_matches_of lmt (PDict kvs) = Inr (PList (take (nat lmt) (filter is_finished ms)))"
  using assms
  by (simp add: last_matches_of_def with_key_dict finished_matches_dicts py_slice_to_take)

lemma last_matches_of_absent:
  "map_of kvs ''matches'' = None \<Longrightarrow> last_matches_of lmt (PDict kvs) = Inr (PList [])"
  by (simp add: last_matches_of_def with_key_dict)

text \<open>
  Claim C3. When \<^verbatim>\<open>get_last_matches_for_team\<close> goes to the network with a limit that is
  not negative, it asks the endpoint for twice the limit; whatever the upstream answers,
  a value it returns is a list of at most \<open>limit\<close> matches, all with the status
  \<^verbatim>\<open>FINISHED\<close>; a response without the key \<^verbatim>\<open>matches\<close> gives the empty list; and for a
  response whose \<^verbatim>\<open>matches\<close> is a list of objects it returns the first \<open>limit\<close> of the
  finished ones, in their order, which are \<open>min limit n\<close> when \<open>n\<close> are finished.
\<close>

theorem last_matches_finished_and_limited:
  assumes "\<not> cached (Matches (team_id, season, limit)) w"
    and "0 \<le> arg_value 15 limit"
  shows "requests (io (snd (get_last_matches_for_team up (team_id, season, limit) w)))
           = api_url (''teams/'' @ team_id @ ''/matches?season=''
               @ season_or_2023 (arg_value None season)
               @ ''&limit='' @ str_int (2 * arg_value 15 limit)) # requests (io w) \<and>
         (\<forall>v. fst (get_last_matches_for_team up (team_id, season, limit) w) = Inr v \<longrightarrow>
            (\<exists>xs. v = PList xs \<and> int (length xs) \<le> arg_value 15 limit \<and> list_all is_finished xs)) \<and>
         (\<forall>kvs. success (up (length (requests (io w))) (api_url (matches_endpoint team_id season limit)))
                  = Some (PDict kvs) \<and>
                map_of kvs ''matches'' = None \<longrightarrow>
            fst (get_last_matches_for_team up (team_id, season, limit) w) = Inr (PList [])) \<and>
         (\<forall>kvs ms. success (up (length (requests (io w))) (api_url (matches_endpoint team_id season limit)))
                  = Some (PDict kvs) \<and>
                map_of kvs ''matches'' = Some (PList ms) \<and> list_all is_dict ms \<longrightarrow>
            fst (get_last_matches_for_team up (team_id, season, limit) w)
              = Inr (PList (take (nat (arg_value 15 limit)) (filter is_finished ms))) \<and>
            length (take (nat (arg_value 15 limit)) (filter is_finished ms))
              = min (nat (arg_value 15 limit)) (length (filter is_finished ms)))"
proof -
  let ?c = "Matches (team_id, season, limit)"
  let ?lim = "arg_value 15 limit"
  let ?call = "get_last_matches_for_team up (team_id, season, limit) w"
  let ?r = "success (up (length (requests (io w))) (api_url (matches_endpoint team_id season limit)))"
  from fetch_miss [OF assms(1), of up]
  have res: "fst ?call = last_matches_of ?lim (fst (football_data_get up (endpoint ?c) (io w)))"
    and eff: "io (snd ?call) = snd (football_data_get up (endpoint ?c) (io w))"
    by simp_all
  have "requests (io (snd ?call))
      = api_url (''teams/'' @ team_id @ ''/matches?season='' @ season_or_2023 (arg_value None season)
               @ ''&limit='' @ str_int (2 * ?lim)) # requests (io w)"
    by (simp add: eff football_data_get_requests matches_endpoint_def mult.commute)
  moreover have "\<exists>xs. v = PList xs \<and> int (length xs) \<le> ?lim \<and> list_all is_finished xs"
    if "fst ?call = Inr v" for v
    using that last_matches_of_Inr [OF _ assms(2)] by (simp add: res)
  moreover have "fst ?call = Inr (PList [])"
    if "?r = Some (PDict kvs)" "map_of kvs ''matches'' = None" for kvs
    using that by (simp add: res football_data_get_data last_matches_of_absent)
  moreover have "fst ?call = Inr (PList (take (nat ?lim) (filter is_finished ms)))"
    if "?r = Some (PDict kvs)" "map_of kvs ''matches'' = Some (PList ms)" "list_all is_dict ms"
    for kvs ms
    using that assms(2) by (simp add: res football_data_get_data last_matches_of_dict)
  moreover have "length (take (nat ?lim) (filter is_finished ms))
      = min (nat ?lim) (length (filter is_finished ms))" for ms
    by (simp add: min.commute)
  ultimately show ?thesis
    by blast
qed

text \<open>Ten matches, six of them finished, and the limit 5: the first five finished ones,
  from a request with \<^verbatim>\<open>limit=10\<close>.\<close>

theorem last_matches_finished_and_limited_witness:
  "\<not> cached (Matches (''57'', Passed (Some ''2023''), Passed 5)) (initial_world 0) \<and>
   fst (get_last_matches_for_team
     (\<lambda>n url. Response 200 (Inr (PDict [(''matches'', PList
       [PDict [(''id'', PInt 1), (''status'', PStr ''FINISHED'')],
        PDict [(''id'', PInt 2), (''status'', PStr ''SCHEDULED'')],
        PDict [(''id'', PInt 3), (''status'', PStr ''FINISHED'')],
        PDict [(''id'', PInt 4), (''status'', PStr ''FINISHED'')],
        PDict [(''id'', PInt 5), (''status'', PStr ''TIMED'')],
        PDict [(''id'', PInt 6), (''status'', PStr ''FINISHED'')],
        PDict [(''id'', PInt 7), (''status'', PStr ''POSTPONED'')],
        PDict [(''id'', PInt 8), (''status'', PStr ''FINISHED'')],
        PDict [(''id'', PInt 9), (''status'', PStr ''FINISHED'')],
        PDict [(''id'', PInt 10), (''status'', PStr ''SCHEDULED'')]])])))
     (''57'', Passed (Some ''2023''), Passed 5) (initial_world 0))
   = Inr (PList
       [PDict [(''id'', PInt 1), (''status'', PStr ''FINISHED'')],
        PDict [(''id'', PInt 3), (''status'', PStr ''FINISHED'')],
        PDict [(''id'', PInt 4), (''status'', PStr ''FINISHED'')],
        PDict [(''id'', PInt 6), (''status'', PStr ''FINISHED'')],
        PDict [(''id'', PInt 8), (''status'', PStr ''FINISHED'')]]) \<and>
   requests (io (snd (get_last_matches_for_team
     (\<lambda>n url. Response 200 (Inr (PDict [(''matches'', PList
       [PDict [(''id'', PInt 1), (''status'', PStr ''FINISHED'')],
        PDict [(''id'', PInt 2), (''status'', PStr ''SCHEDULED'')],
        PDict [(''id'', PInt 3), (''status'', PStr ''FINISHED'')],
        PDict [(''id'', PInt 4), (''status'', PStr ''FINISHED'')],
        PDict [(''id'', PInt 5), (''status'', PStr ''TIMED'')],
        PDict [(''id'', PInt 6), (''status'', PStr ''FINISHED'')],
        PDict [(''id'', PInt 7), (''status'', PStr ''POSTPONED'')],
        PDict [(''id'', PInt 8), (''status'', PStr ''FINISHED'')],
        PDict [(''id'', PInt 9), (''status'', PStr ''FINISHED'')],
        PDict [(''id'', PInt 10), (''status'', PStr ''SCHEDULED'')]])])))
     (''57'', Passed (Some ''2023''), Passed 5) (initial_world 0))))
   = [''https://api.football-data.org/v4/teams/57/matches?season=2023&limit=10'']"
  (is "\<not> cached ?c ?w \<and> fst (get_last_matches_for_team ?U ?a ?w) = Inr (PList ?five) \<and> _")
proof -
  let ?ms = "[PDict [(''id'', PInt 1), (''status'', PStr ''FINISHED'')],
        PDict [(''id'', PInt 2), (''status'', PStr ''SCHEDULED'')],
        PDict [(''id'', PInt 3), (''status'', PStr ''FINISHED'')],
        PDict [(''id'', PInt 4), (''status'', PStr ''FINISHED'')],
        PDict [(''id'', PInt 5), (''status'', PStr ''TIMED'')],
        PDict [(''id'', PInt 6), (''status'', PStr ''FINISHED'')],
        PDict [(''id'', PInt 7), (''status'', PStr ''POSTPONED'')],
        PDict [(''id'', PInt 8), (''status'', PStr ''FINISHED'')],
        PDict [(''id'', PInt 9), (''status'', PStr ''FINISHED'')],
        PDict [(''id'', PInt 10), (''status'', PStr ''SCHEDULED'')]]"
  have miss: "\<not> cached ?c ?w"
    by (simp add: cached_def initial_world_def)
  have nn: "0 \<le> arg_value 15 (Passed (5::int))"
    by simp
  note t = last_matches_finished_and_limited [OF miss nn, of ?U]
  have ok: "success (?U (length (requests (io ?w))) (api_url (matches_endpoint ''57'' (Passed (Some ''2023'')) (Passed 5))))
      = Some (PDict [(''matches'', PList ?ms)]) \<and>
    map_of [(''matches'', PList ?ms)] ''matches'' = Some (PList ?ms) \<and> list_all is_dict ?ms"
    by simp
  from t [THEN conjunct2, THEN conjunct2, THEN conjunct2, rule_format, OF ok]
  have "fst (get_last_matches_for_team ?U ?a ?w) = Inr (PList ?five)"
    by (simp add: is_finished_def)
  moreover from t [THEN conjunct1]
  have "requests (io (snd (get_last_matches_for_team ?U ?a ?w)))
      = [''https://api.football-data.org/v4/teams/57/matches?season=2023&limit=10'']"
    by (simp add: initial_world_def api_url_def season_or_2023_def str_int_def digits.simps
        digit_char_def)
  ultimately show ?thesis using miss by simp
qed

subsection \<open>The standings of a league\<close>

lemma total_table_shaped:
  "list_all standings_group_shape gs \<Longrightarrow>
     total_table gs = (case find is_total gs of None \<Rightarrow> Inr (PList []) | Some g \<Rightarrow> py_getitem g ''table'')"
proof (induction gs)
  case Nil
  then show ?case by simp
next
  case (Cons g gs)
  then obtain kvs ty where "g = PDict kvs" "map_of kvs ''type'' = Some ty"
    by (cases g) (auto split: option.splits)
  with Cons show ?case
    by (simp add: is_total_def py_eq_PStr)
qed

lemma total_has_table:
  "standings_group_shape g \<Longrightarrow> is_total g \<Longrightarrow> \<exists>t. py_getitem g ''table'' = Inr t"
  by (cases g) (auto simp: is_total_def split: option.splits if_splits)

lemma standings_of_dict:
  "standings_of (PDict kvs)
     = (case map_of kvs ''standings'' of
          None \<Rightarrow> Inr (PList [])
        | Some st \<Rightarrow> bind_exn (py_iter st) total_table)"
  by (simp add: standings_of_def with_key_dict split: option.splits)

text \<open>
  Claim C8. When \<^verbatim>\<open>get_league_standings\<close> goes to the network and the response is an
  object, it returns the empty list when the key \<^verbatim>\<open>standings\<close> is absent; and when
  \<^verbatim>\<open>standings\<close> is a list of groups (objects with a \<^verbatim>\<open>type\<close>, and a \<^verbatim>\<open>table\<close> in the
  groups of type \<^verbatim>\<open>TOTAL\<close>), it returns the \<^verbatim>\<open>table\<close> of the first group whose type is
  \<^verbatim>\<open>TOTAL\<close>, passing over the groups of other types, and the empty list when no group has
  that type.
\<close>

theorem standings_total_table:
  assumes "\<not> cached (Standings args) w"
    and "success (up (length (requests (io w))) (api_url (endpoint (Standings args)))) = Some (PDict kvs)"
  shows "(map_of kvs ''standings'' = None \<longrightarrow>
            fst (get_league_standings up args w) = Inr (PList [])) \<and>
         (\<forall>groups. map_of kvs ''standings'' = Some (PList groups) \<and>
              list_all standings_group_shape groups \<longrightarrow>
            (case find is_total groups of
               None \<Rightarrow> fst (get_league_standings up args w) = Inr (PList [])
             | Some g \<Rightarrow> \<exists>t. py_getitem g ''table'' = Inr t \<and>
                 fst (get_league_standings up args w) = Inr t))"
proof -
  from fetch_miss(1) [OF assms(1), of up] assms(2)
  have res: "fst (get_league_standings up args w) = standings_of (PDict kvs)"
    by (simp add: football_data_get_data)
  have "fst (get_league_standings up args w) = Inr (PList [])"
    if "map_of kvs ''standings'' = None"
    using that by (simp add: res standings_of_dict)
  moreover have "case find is_total groups of
               None \<Rightarrow> fst (get_league_standings up args w) = Inr (PList [])
             | Some g \<Rightarrow> \<exists>t. py_getitem g ''table'' = Inr t \<and>
                 fst (get_league_standings up args w) = Inr t"
    if st: "map_of kvs ''standings'' = Some (PList groups)"
      and shape: "list_all standings_group_shape groups" for groups
  proof -
    have tt: "fst (get_league_standings up args w)
        = (case find is_total groups of None \<Rightarrow> Inr (PList []) | Some g \<Rightarrow> py_getitem g ''table'')"
      using st by (simp add: res standings_of_dict total_table_shaped [OF shape])
    show ?thesis
    proof (cases "find is_total groups")
      case None
      with tt show ?thesis by simp
    next
      case (Some g)
      then have "g \<in> set groups" "is_total g"
        by (auto simp: find_Some_iff)
      with shape total_has_table [of g] obtain t where "py_getitem g ''table'' = Inr t"
        by (auto simp: list_all_iff)
      with Some tt show ?thesis by simp
    qed
  qed
  ultimately show ?thesis by blast
qed

text \<open>Two groups, \<^verbatim>\<open>HOME_AWAY\<close> and then \<^verbatim>\<open>TOTAL\<close>: the table of the second.\<close>

theorem standings_total_table_witness:
  "\<not> cached (Standings (''PL'', Passed (Some ''2023''))) (initial_world 0) \<and>
   fst (get_league_standings
     (\<lambda>n url. Response 200 (Inr (PDict [(''standings'', PList
        [PDict [(''type'', PStr ''HOME_AWAY''), (''table'', PList [PDict [(''position'', PInt 2)]])],
         PDict [(''type'', PStr ''TOTAL''), (''table'', PList [PDict [(''position'', PInt 1)]])]])])))
     (''PL'', Passed (Some ''2023'')) (initial_world 0))
   = Inr (PList [PDict [(''position'', PInt 1)]])"
  (is "\<not> cached ?c ?w \<and> fst (get_league_standings ?U ?a ?w) = Inr ?t")
proof -
  let ?groups = "[PDict [(''type'', PStr ''HOME_AWAY''), (''table'', PList [PDict [(''position'', PInt 2)]])],
         PDict [(''type'', PStr ''TOTAL''), (''table'', PList [PDict [(''position'', PInt 1)]])]]"
  have miss: "\<not> cached ?c ?w"
    by (simp add: cached_def initial_world_def)
  have ok: "success (?U (length (requests (io ?w))) (api_url (endpoint ?c)))
      = Some (PDict [(''standings'', PList ?groups)])"
    by simp
  have shape: "map_of [(''standings'', PList ?groups)] ''standings'' = Some (PList ?groups) \<and>
      list_all standings_group_shape ?groups"
    by simp
  from standings_total_table [OF miss ok, THEN conjunct2, rule_format, OF shape] miss
  show ?thesis
    by (simp add: is_total_def)
qed

subsection \<open>Eviction\<close>

lemma run_Cons:
  "fst (run up (d # ds) w) = fst (fetch up d w) # fst (run up ds (snd (fetch up d w)))"
  "snd (run up (d # ds) w) = snd (run up ds (snd (fetch up d w)))"
  by (simp_all split: prod.splits)

declare run.simps(2) [simp del]

lemma run_append: "snd (run up (xs @ ys) w) = snd (run up ys (snd (run up xs w)))"
  by (induction xs arbitrary: w) (simp_all add: run_Cons)

lemma cached_iff_keys: "cached d w = (d \<in> set (cache_keys d w))"
  by (cases d) (auto simp: cached_def map_of_eq_None_iff image_iff)

lemma same_operation_keys:
  "same_operation c d \<Longrightarrow> cache_keys c w = cache_keys d w \<and> maxsize c = maxsize d"
  by (cases c; cases d) simp_all

lemma cache_size_keys: "cache_size c w = length (cache_keys c w)"
  by (cases c) simp_all

lemma fetch_miss_keys:
  assumes "\<not> cached d w" and "fst (fetch up d w) = Inr v"
  shows "cache_keys d (snd (fetch up d w))
     = (if maxsize d \<le> length (cache_keys d w) then tl (cache_keys d w) else cache_keys d w) @ [d]"
  using assms
  by (cases d)
    (auto simp: cached_def fetch_defs lru_cache_miss map_tl split: prod.splits sum.splits)

lemma fetch_hit_keys:
  assumes "cached d w"
  shows "cache_keys d (snd (fetch up d w)) = filter (\<lambda>x. x \<noteq> d) (cache_keys d w) @ [d]"
  using assms
  by (cases d) (auto simp: cached_def fetch_defs lru_cache_hit filter_map comp_def)

lemma set_tl_subset: "x \<in> set (tl xs) \<Longrightarrow> x \<in> set xs"
  by (cases xs) simp_all

lemma drop_step:
  assumes "length ks \<le> n" and "0 < n"
  shows "drop (length ((if n \<le> length ks then tl ks else ks) @ [d]) + length ds - n)
           (((if n \<le> length ks then tl ks else ks) @ [d]) @ ds)
         = drop (length ks + length (d # ds) - n) (ks @ d # ds)"
proof (cases "n \<le> length ks")
  case True
  with assms have len: "length ks = n" and ne: "ks \<noteq> []"
    by auto
  then obtain k ks' where "ks = k # ks'"
    by (cases ks) auto
  with len True show ?thesis
    by simp
next
  case False
  then show ?thesis
    by simp
qed

lemma run_misses:
  assumes "list_all (same_operation c) ds"
    and "distinct ds"
    and "list_all (\<lambda>d. \<not> cached d w) ds"
    and "list_all (\<lambda>r. \<not> isl r) (fst (run up ds w))"
    and "cache_size c w \<le> maxsize c"
  shows "cache_keys c (snd (run up ds w))
     = drop (length (cache_keys c w) + length ds - maxsize c) (cache_keys c w @ ds)"
  using assms
proof (induction ds arbitrary: w)
  case Nil
  then show ?case
    by (simp add: cache_size_keys)
next
  case (Cons d ds)
  let ?w1 = "snd (fetch up d w)"
  let ?ks = "cache_keys c w"
  let ?ks1 = "(if maxsize c \<le> length ?ks then tl ?ks else ?ks) @ [d]"
  from Cons.prems(1) have op: "same_operation c d" and ops: "list_all (same_operation c) ds"
    by simp_all
  note same = same_operation_keys [OF op]
  from Cons.prems(3) have miss: "\<not> cached d w"
    by simp
  from Cons.prems(4) obtain v where v: "fst (fetch up d w) = Inr v"
    by (cases "fst (fetch up d w)") (simp_all add: run_Cons)
  have pos: "0 < maxsize c"
    by (cases c) simp_all
  from fetch_miss_keys [OF miss v] same
  have ks1: "cache_keys c ?w1 = ?ks1"
    by simp
  have size1: "cache_size c ?w1 \<le> maxsize c"
    using Cons.prems(5) pos by (auto simp: cache_size_keys ks1)
  have miss1: "list_all (\<lambda>x. \<not> cached x ?w1) ds"
    unfolding list_all_iff
  proof
    fix x assume x: "x \<in> set ds"
    with ops have "same_operation c x"
      by (simp add: list_all_iff)
    from same_operation_keys [OF this, of ?w1] have "cache_keys x ?w1 = cache_keys c ?w1"
      by simp
    then have "cache_keys x ?w1 = ?ks1"
      by (simp only: ks1)
    moreover from x Cons.prems(3) same_operation_keys [OF \<open>same_operation c x\<close>, of w]
    have "x \<notin> set ?ks"
      by (simp add: list_all_iff cached_iff_keys)
    moreover from x Cons.prems(2) have "x \<noteq> d"
      by auto
    ultimately show "\<not> cached x ?w1"
      by (auto simp: cached_iff_keys dest: set_tl_subset)
  qed
  from Cons.prems(4) have rs: "list_all (\<lambda>r. \<not> isl r) (fst (run up ds ?w1))"
    by (simp add: run_Cons)
  from Cons.prems(2) have "distinct ds"
    by simp
  from Cons.IH [OF ops this miss1 rs size1]
  have "cache_keys c (snd (run up ds ?w1)) = drop (length ?ks1 + length ds - maxsize c) (?ks1 @ ds)"
    by (simp only: ks1)
  also have "\<dots> = drop (length ?ks + length (d # ds) - maxsize c) (?ks @ d # ds)"
    using Cons.prems(5) pos by (intro drop_step) (simp_all add: cache_size_keys)
  finally show ?case
    by (simp add: run_Cons)
qed

text \<open>
  Claim C5, amended. Each operation's cache has a fixed capacity (128 entries for the
  teams and the standings, 256 for the team information and the matches) and evicts the
  least recently used entry: a cache hit makes its entry the most recent one, and a value
  stored in a full cache takes the place of the least recent one. So after capacity + 1
  distinct keys are inserted one after the other, with no cache hit between them, the
  cache is within its capacity, the key inserted first is no longer in it, and all the
  keys inserted after it are.
\<close>

theorem least_recently_used_eviction:
  assumes "list_all (same_operation c) cs"
    and "distinct (c # cs)"
    and "length (c # cs) = Suc (maxsize c)"
    and "list_all (\<lambda>d. \<not> cached d w) (c # cs)"
    and "list_all (\<lambda>r. \<not> isl r) (fst (run up (c # cs) w))"
    and "cache_size c w \<le> maxsize c"
  shows "cache_size c (snd (run up (c # cs) w)) \<le> maxsize c \<and>
         \<not> cached c (snd (run up (c # cs) w)) \<and>
         list_all (\<lambda>d. cached d (snd (run up (c # cs) w))) cs \<and>
         (\<forall>d w'. cached d w' \<longrightarrow>
            cache_keys d (snd (fetch up d w')) = filter (\<lambda>x. x \<noteq> d) (cache_keys d w') @ [d]) \<and>
         (\<forall>d w'. \<not> cached d w' \<and> \<not> isl (fst (fetch up d w')) \<longrightarrow>
            cache_keys d (snd (fetch up d w'))
              = (if maxsize d \<le> cache_size d w' then tl (cache_keys d w') else cache_keys d w') @ [d])"
proof -
  let ?w' = "snd (run up (c # cs) w)"
  have "same_operation c c"
    by (cases c) simp_all
  with assms(1) have ops: "list_all (same_operation c) (c # cs)"
    by simp
  from run_misses [OF ops assms(2) assms(4) assms(5) assms(6)] assms(3,6)
  have keys: "cache_keys c ?w' = cs"
    by (simp add: cache_size_keys)
  have "cache_size c ?w' \<le> maxsize c"
    using assms(3) by (simp add: cache_size_keys keys)
  moreover have "\<not> cached c ?w'"
    using assms(2) by (simp add: cached_iff_keys keys)
  moreover have "list_all (\<lambda>d. cached d ?w') cs"
    unfolding list_all_iff
  proof
    fix d assume d: "d \<in> set cs"
    with assms(1) have "same_operation c d"
      by (simp add: list_all_iff)
    from same_operation_keys [OF this, of ?w'] d show "cached d ?w'"
      by (simp add: cached_iff_keys keys)
  qed
  moreover have "cache_keys d (snd (fetch up d w')) = filter (\<lambda>x. x \<noteq> d) (cache_keys d w') @ [d]"
    if "cached d w'" for d w'
    by (rule fetch_hit_keys [OF that])
  moreover have "cache_keys d (snd (fetch up d w'))
      = (if maxsize d \<le> cache_size d w' then tl (cache_keys d w') else cache_keys d w') @ [d]"
    if "\<not> cached d w' \<and> \<not> isl (fst (fetch up d w'))" for d w'
  proof -
    from that obtain v where "fst (fetch up d w') = Inr v"
      by (cases "fst (fetch up d w')") simp_all
    from fetch_miss_keys [OF _ this] that show ?thesis
      by (simp add: cache_size_keys)
  qed
  ultimately show ?thesis
    by blast
qed

lemma initial_world_empty:
  "\<not> cached d (initial_world t)" "cache_keys d (initial_world t) = []"
  "cache_size d (initial_world t) = 0"
  by (cases d; simp add: cached_def initial_world_def)+

lemma fetch_returns_on_failure:
  assumes "\<And>n url. success (up n url) = None"
  shows "\<not> isl (fst (fetch up c w))"
proof (cases "cached c w")
  case True
  from fetch_hit [OF True, of up] show ?thesis
    by auto
next
  case False
  from fetch_miss(1) [OF False, of up] assms show ?thesis
    by (simp add: football_data_get_data from_data_None)
qed

lemma run_returns_on_failure:
  assumes "\<And>n url. success (up n url) = None"
  shows "list_all (\<lambda>r. \<not> isl r) (fst (run up cs w))"
  by (induction cs arbitrary: w) (simp_all add: run_Cons fetch_returns_on_failure [OF assms])

lemma below_ten:
  "(d::nat) < 10 \<Longrightarrow>
     d = 0 \<or> d = 1 \<or> d = 2 \<or> d = 3 \<or> d = 4 \<or> d = 5 \<or> d = 6 \<or> d = 7 \<or> d = 8 \<or> d = 9"
  by arith

lemma digit_char_code:
  assumes "d < 10"
  shows "(of_char (digit_char d) :: nat) = 48 + d"
  using below_ten [OF assms] by (elim disjE) (simp_all add: digit_char_def)

lemma digit_char_inj:
  assumes "a < 10" and "b < 10" and "digit_char a = digit_char b"
  shows "a = b"
proof -
  from assms(3) have "(of_char (digit_char a) :: nat) = of_char (digit_char b)"
    by (rule arg_cong)
  then have "48 + a = 48 + b"
    by (simp only: digit_char_code [OF assms(1)] digit_char_code [OF assms(2)])
  then show ?thesis
    by (rule add_left_imp_eq)
qed

lemma digits_not_Nil: "digits n \<noteq> []"
  by (subst digits.simps) simp

lemma digits_inj: "digits n = digits m \<Longrightarrow> n = m"
proof (induction n arbitrary: m rule: digits.induct)
  case (1 n)
  show ?case
  proof (cases "n < 10")
    case small_n: True
    show ?thesis
    proof (cases "m < 10")
      case True
      with small_n "1.prems" show ?thesis
        by (simp add: digits.simps [of n] digits.simps [of m] digit_char_inj)
    next
      case False
      with small_n "1.prems" digits_not_Nil [of "m div 10"] show ?thesis
        by (simp add: digits.simps [of n] digits.simps [of m])
    qed
  next
    case big_n: False
    show ?thesis
    proof (cases "m < 10")
      case True
      with big_n "1.prems" digits_not_Nil [of "n div 10"] show ?thesis
        by (simp add: digits.simps [of n] digits.simps [of m])
    next
      case False
      with big_n "1.prems"
      have d: "digits (n div 10) = digits (m div 10)"
        and r: "digit_char (n mod 10) = digit_char (m mod 10)"
        by (simp_all add: digits.simps [of n] digits.simps [of m])
      from "1.IH" [OF big_n d] have "n div 10 = m div 10" .
      moreover from digit_char_inj [OF _ _ r] have "n mod 10 = m mod 10"
        by simp
      ultimately show ?thesis
        by (metis div_mult_mod_eq)
    qed
  qed
qed

lemma season_keys_distinct:
  "distinct ns \<Longrightarrow> distinct (map (\<lambda>i. Teams (''PL'', Passed (Some (digits i)))) ns)"
  by (induction ns) (auto dest: digits_inj)

lemma season_keys_same:
  "list_all (same_operation (Teams a)) (map (\<lambda>i. Teams (''PL'', Passed (Some (digits i)))) ns)"
  by (simp add: list_all_iff)

lemma seasons_upt:
  "[1900..<2029] = 1900 # [1901..<2029]"
  "[1900..<2029] = [1900..<2028] @ [2028]"
  "[1900..<2028] = 1900 # 1901 # [1902..<2028]"
  by (simp_all add: upt_conv_Cons)

lemma season_names:
  "digits 1900 = ''1900''" "digits 1901 = ''1901''" "digits 2028 = ''2028''"
  by (simp_all add: digits.simps digit_char_def)

lemma recency_after_hit:
  assumes "K = k0 # k1 # rest" and "distinct (K @ [kn])" and "0 < n" and "n \<le> length K"
  shows "k0 \<in> set ((if n \<le> length (filter (\<lambda>x. x \<noteq> k0) K @ [k0])
                    then tl (filter (\<lambda>x. x \<noteq> k0) K @ [k0])
                    else filter (\<lambda>x. x \<noteq> k0) K @ [k0]) @ [kn])"
    and "k1 \<notin> set ((if n \<le> length (filter (\<lambda>x. x \<noteq> k0) K @ [k0])
                    then tl (filter (\<lambda>x. x \<noteq> k0) K @ [k0])
                    else filter (\<lambda>x. x \<noteq> k0) K @ [k0]) @ [kn])"
proof -
  from assms(1,2) have "filter (\<lambda>x. x \<noteq> k0) K = k1 # rest"
    by (auto simp: filter_id_conv)
  with assms show "k0 \<in> set ((if n \<le> length (filter (\<lambda>x. x \<noteq> k0) K @ [k0])
                    then tl (filter (\<lambda>x. x \<noteq> k0) K @ [k0])
                    else filter (\<lambda>x. x \<noteq> k0) K @ [k0]) @ [kn])"
    and "k1 \<notin> set ((if n \<le> length (filter (\<lambda>x. x \<noteq> k0) K @ [k0])
                    then tl (filter (\<lambda>x. x \<noteq> k0) K @ [k0])
                    else filter (\<lambda>x. x \<noteq> k0) K @ [k0]) @ [kn])"
    by auto
qed

text \<open>The teams of the Premier League for the 129 seasons 1900 to 2028, all unknown
  upstream, asked for in turn from the start of the process.\<close>

theorem least_recently_used_eviction_witness:
  "distinct (map (\<lambda>i. Teams (''PL'', Passed (Some (digits i)))) [1900..<2029]) \<and>
   length (map (\<lambda>i. Teams (''PL'', Passed (Some (digits i)))) [1900..<2029])
     = Suc (maxsize (Teams (''PL'', Passed (Some ''1900'')))) \<and>
   \<not> cached (Teams (''PL'', Passed (Some ''1900'')))
     (snd (run (\<lambda>n url. Response 404 (Inl []))
        (map (\<lambda>i. Teams (''PL'', Passed (Some (digits i)))) [1900..<2029]) (initial_world 0))) \<and>
   cached (Teams (''PL'', Passed (Some ''1901'')))
     (snd (run (\<lambda>n url. Response 404 (Inl []))
        (map (\<lambda>i. Teams (''PL'', Passed (Some (digits i)))) [1900..<2029]) (initial_world 0))) \<and>
   cached (Teams (''PL'', Passed (Some ''2028'')))
     (snd (run (\<lambda>n url. Response 404 (Inl []))
        (map (\<lambda>i. Teams (''PL'', Passed (Some (digits i)))) [1900..<2029]) (initial_world 0)))"
proof -
  note upt_rec_numeral [simp del]
  let ?key = "\<lambda>i. Teams (''PL'', Passed (Some (digits i)))"
  let ?U = "\<lambda>(n::nat) (url::string). Response 404 (Inl [])"
  let ?c = "?key 1900" and ?cs = "map ?key [1901..<2029]"
  let ?w = "initial_world 0"
  have split: "map ?key [1900..<2029] = ?c # ?cs"
    by (simp only: seasons_upt(1) list.map)
  have ops: "list_all (same_operation ?c) ?cs"
    by (rule season_keys_same)
  have "distinct (map ?key [1900..<2029])"
    by (rule season_keys_distinct) simp
  then have dist: "distinct (?c # ?cs)"
    by (simp only: split)
  have len: "length (?c # ?cs) = Suc (maxsize ?c)"
    by simp
  have miss: "list_all (\<lambda>d. \<not> cached d ?w) (?c # ?cs)"
    by (simp add: list_all_iff initial_world_empty del: list.map)
  have rets: "list_all (\<lambda>r. \<not> isl r) (fst (run ?U (?c # ?cs) ?w))"
    by (rule run_returns_on_failure) simp
  have size: "cache_size ?c ?w \<le> maxsize ?c"
    by (simp add: initial_world_empty)
  have "?key 1901 \<in> set ?cs"
    unfolding set_map by (rule imageI) simp
  moreover have "?key 2028 \<in> set ?cs"
    unfolding set_map by (rule imageI) simp
  ultimately have mem: "?key 1901 \<in> set ?cs" "?key 2028 \<in> set ?cs" .
  from least_recently_used_eviction [OF ops dist len miss rets size]
  have "\<not> cached ?c (snd (run ?U (?c # ?cs) ?w))"
    and "list_all (\<lambda>d. cached d (snd (run ?U (?c # ?cs) ?w))) ?cs"
    by simp_all
  with mem have "\<not> cached (?key 1900) (snd (run ?U (map ?key [1900..<2029]) ?w))"
    and "cached (?key 1901) (snd (run ?U (map ?key [1900..<2029]) ?w))"
    and "cached (?key 2028) (snd (run ?U (map ?key [1900..<2029]) ?w))"
    unfolding split list_all_iff by blast+
  moreover have "distinct (map ?key [1900..<2029])"
    using dist by (simp only: split)
  moreover have "length (map ?key [1900..<2029]) = Suc (maxsize (?key 1900))"
    by simp
  ultimately show ?thesis
    by (simp only: season_names simp_thms)
qed

text \<open>
  Claim C5 as stated (the entry evicted is the one inserted first, whatever cache hits
  come between the insertions) fails: when the seasons 1900 to 2027 of the Premier League
  have filled the cache of \<^verbatim>\<open>get_teams_in_league\<close>, a hit on the season 1900 followed by
  the insertion of the season 2028 evicts the season 1901: the key inserted first is
  still in the cache, and one inserted after it is not.
\<close>

theorem insertion_order_eviction_counterexample:
  "cached (Teams (''PL'', Passed (Some ''1900'')))
     (snd (run (\<lambda>n url. Response 404 (Inl []))
        (map (\<lambda>i. Teams (''PL'', Passed (Some (digits i)))) ([1900..<2028] @ [1900, 2028]))
        (initial_world 0))) \<and>
   \<not> cached (Teams (''PL'', Passed (Some ''1901'')))
     (snd (run (\<lambda>n url. Response 404 (Inl []))
        (map (\<lambda>i. Teams (''PL'', Passed (Some (digits i)))) ([1900..<2028] @ [1900, 2028]))
        (initial_world 0)))"
proof -
  note upt_rec_numeral [simp del]
  let ?key = "\<lambda>i. Teams (''PL'', Passed (Some (digits i)))"
  let ?U = "\<lambda>(n::nat) (url::string). Response 404 (Inl [])"
  let ?K = "map ?key [1900..<2028]"
  let ?rest = "map ?key [1902..<2028]"
  let ?w0 = "initial_world 0"
  let ?w1 = "snd (run ?U ?K ?w0)"
  let ?w2 = "snd (fetch ?U (?key 1900) ?w1)"
  let ?w3 = "snd (fetch ?U (?key 2028) ?w2)"
  have fail: "\<And>n url. success (?U n url) = None"
    by simp
  have "distinct (map ?key [1900..<2029])"
    by (rule season_keys_distinct) simp
  then have dist: "distinct (?K @ [?key 2028])"
    by (simp only: seasons_upt(2) map_append list.map)
  then have distK: "distinct ?K" and new: "?key 2028 \<notin> set ?K"
    by simp_all
  have K: "?K = ?key 1900 # ?key 1901 # ?rest"
    by (simp only: seasons_upt(3) list.map)
  have "cache_keys (?key 1900) ?w1
      = drop (length (cache_keys (?key 1900) ?w0) + length ?K - maxsize (?key 1900))
          (cache_keys (?key 1900) ?w0 @ ?K)"
  proof (rule run_misses)
    show "list_all (same_operation (?key 1900)) ?K"
      by (rule season_keys_same)
    show "distinct ?K"
      by (rule distK)
    show "list_all (\<lambda>d. \<not> cached d ?w0) ?K"
      by (simp add: list_all_iff initial_world_empty)
    show "list_all (\<lambda>r. \<not> isl r) (fst (run ?U ?K ?w0))"
      by (rule run_returns_on_failure) simp
    show "cache_size (?key 1900) ?w0 \<le> maxsize (?key 1900)"
      by (simp add: initial_world_empty)
  qed
  then have k1: "cache_keys (?key 1900) ?w1 = ?K"
    by (simp add: initial_world_empty)
  have in0: "?key 1900 \<in> set ?K"
    unfolding set_map by (rule imageI) simp
  then have hit: "cached (?key 1900) ?w1"
    by (simp only: cached_iff_keys k1)
  have same_new: "cache_keys (?key 2028) w = cache_keys (?key 1900) w"
    and same_second: "cache_keys (?key 1901) w = cache_keys (?key 1900) w" for w
    by simp_all
  from fetch_hit_keys [OF hit, of ?U]
  have k2: "cache_keys (?key 1900) ?w2 = filter (\<lambda>x. x \<noteq> ?key 1900) ?K @ [?key 1900]"
    by (simp only: k1)
  have ne: "?key 2028 \<noteq> ?key 1900"
    using new in0 by auto
  have "?key 2028 \<notin> set (filter (\<lambda>x. x \<noteq> ?key 1900) ?K @ [?key 1900])"
    using new ne by simp
  then have miss: "\<not> cached (?key 2028) ?w2"
    unfolding cached_iff_keys same_new k2 .
  from fetch_returns_on_failure [of ?U "?key 2028" ?w2] fail
  obtain v where "fst (fetch ?U (?key 2028) ?w2) = Inr v"
    by (cases "fst (fetch ?U (?key 2028) ?w2)") simp_all
  from fetch_miss_keys [OF miss this]
  have k3: "cache_keys (?key 1900) ?w3
      = (if maxsize (?key 2028) \<le> length (filter (\<lambda>x. x \<noteq> ?key 1900) ?K @ [?key 1900])
         then tl (filter (\<lambda>x. x \<noteq> ?key 1900) ?K @ [?key 1900])
         else filter (\<lambda>x. x \<noteq> ?key 1900) ?K @ [?key 1900]) @ [?key 2028]"
    by (simp only: same_new k2)
  have full: "maxsize (?key 2028) \<le> length ?K"
    by simp
  have pos: "0 < maxsize (?key 2028)"
    by simp
  have "cached (?key 1900) ?w3"
    by (simp only: cached_iff_keys k3) (rule recency_after_hit(1) [OF K dist pos full])
  moreover have "\<not> cached (?key 1901) ?w3"
    by (simp only: cached_iff_keys same_second k3) (rule recency_after_hit(2) [OF K dist pos full])
  moreover have "snd (run ?U (map ?key ([1900..<2028] @ [1900, 2028])) ?w0) = ?w3"
    by (simp add: run_append run_Cons)
  ultimately show ?thesis
    by (simp only: season_names simp_thms)
qed

end
